theory Spec2Isabelle
  imports Complex_Main "HOL-Library.Multiset"
begin

section \<open>Data model\<close>

text \<open>
  A JavaScript \<^verbatim>\<open>Date\<close> as the code reads it: only \<^verbatim>\<open>getHours()\<close> and
  \<^verbatim>\<open>getMinutes()\<close> (local wall clock) are ever called. \<^verbatim>\<open>new Date(s)\<close> on an
  unparsable string is an Invalid Date, whose getters return NaN; NaN is \<open>None\<close> here.
\<close>

datatype js_date = Date (date_hours: nat) (date_minutes: nat) | InvalidDate

fun getHours :: "js_date \<Rightarrow> nat option" where
  "getHours (Date h m) = Some h"
| "getHours InvalidDate = None"

fun getMinutes :: "js_date \<Rightarrow> nat option" where
  "getMinutes (Date h m) = Some m"
| "getMinutes InvalidDate = None"

text \<open>A valid Date has an hour in 0..23 and a minute in 0..59.\<close>

fun valid_date :: "js_date \<Rightarrow> bool" where
  "valid_date (Date h m) = (h < 24 \<and> m < 60)"
| "valid_date InvalidDate = False"

text \<open>A row of the trips CSV after the row conversion has parsed its two timestamps.\<close>

record trip =
  start_station_id :: string
  end_station_id :: string
  started_at :: js_date
  ended_at :: js_date

text \<open>
  A station object of the stations JSON. The derived fields are absent (\<open>None\<close>, the
  JavaScript \<^verbatim>\<open>undefined\<close>) until an aggregation writes them.
\<close>

record station =
  short_name :: string
  lon :: real
  lat :: real
  arrivals :: "nat option"
  departures :: "nat option"
  totalTraffic :: "nat option"

section \<open>Time helpers (both variants)\<close>

text \<open>\<^verbatim>\<open>date.getHours() * 60 + date.getMinutes()\<close>; NaN when the date is invalid.\<close>

definition minutesSinceMidnight :: "js_date \<Rightarrow> nat option" where
  "minutesSinceMidnight date =
     (case (getHours date, getMinutes date) of
        (Some h, Some m) \<Rightarrow> Some (h * 60 + m)
      | _ \<Rightarrow> None)"

text \<open>The JavaScript remainder \<^verbatim>\<open>a % n\<close> on integers: the sign follows the dividend.\<close>

definition js_rem :: "int \<Rightarrow> int \<Rightarrow> int" where
  "js_rem a n = sgn a * (\<bar>a\<bar> mod \<bar>n\<bar>)"

text \<open>
  \<^verbatim>\<open>Array.prototype.slice(start, end)\<close>: a negative index counts from the end, and
  both indices are clamped to the array. \<^verbatim>\<open>slice(start)\<close> runs to the end.
\<close>

definition relative_index :: "int \<Rightarrow> nat \<Rightarrow> nat" where
  "relative_index i len = (if i < 0 then nat (max (int len + i) 0) else nat (min i (int len)))"

definition slice :: "'a list \<Rightarrow> int \<Rightarrow> int \<Rightarrow> 'a list" where
  "slice xs start end =
     (let k = relative_index start (length xs);
          final = relative_index end (length xs)
      in take (final - k) (drop k xs))"

definition slice_from :: "'a list \<Rightarrow> int \<Rightarrow> 'a list" where
  "slice_from xs start = drop (relative_index start (length xs)) xs"

section \<open>map.js: the bucketed windowed query\<close>

text \<open>
  \<^verbatim>\<open>filterByMinute(tripsByMinute, minute)\<close>. \<^verbatim>\<open>flat()\<close> on an array of arrays of
  objects is \<open>concat\<close>.
\<close>

definition filterByMinute :: "'a list list \<Rightarrow> int \<Rightarrow> 'a list" where
  "filterByMinute tripsByMinute minute =
     (if minute = - 1 then concat tripsByMinute
      else
        let minMinute = js_rem (minute - 60 + 1440) 1440;
            maxMinute = js_rem (minute + 60) 1440
        in if minMinute > maxMinute then
             (let beforeMidnight = slice_from tripsByMinute minMinute;
                  afterMidnight = slice tripsByMinute 0 maxMinute
              in concat (beforeMidnight @ afterMidnight))
           else concat (slice tripsByMinute minMinute maxMinute))"

text \<open>
  The window as the specification words it: \<open>minMinute = (minute - 60 + 1440) mod 1440\<close>,
  \<open>maxMinute = (minute + 60) mod 1440\<close>, the bucket indices \<open>[minMinute, maxMinute)\<close>,
  or \<open>[minMinute, 1440)\<close> followed by \<open>[0, maxMinute)\<close> when the window wraps.
\<close>

definition spec_window :: "int \<Rightarrow> nat list" where
  "spec_window minute =
     (let minMinute = nat ((minute - 60 + 1440) mod 1440);
          maxMinute = nat ((minute + 60) mod 1440)
      in if minMinute \<le> maxMinute then [minMinute..<maxMinute]
         else [minMinute..<1440] @ [0..<maxMinute])"

text \<open>
  The bucket indices a query covers, read off the code itself: the query run on the
  table whose bucket \<open>i\<close> holds just the index \<open>i\<close>.
\<close>

definition index_table :: "nat list list" where
  "index_table = map (\<lambda>i. [i]) [0..<1440]"

definition covered_indices :: "int \<Rightarrow> nat list" where
  "covered_indices minute = filterByMinute index_table minute"

section \<open>map.js: bucketing the trips at load\<close>

text \<open>
  The row conversion of \<^verbatim>\<open>d3.csv\<close> pushes every trip onto
  \<^verbatim>\<open>departuresByMinute[startedMinutes]\<close> and \<^verbatim>\<open>arrivalsByMinute[endedMinutes]\<close>.
  Indexing with NaN or past the end yields \<^verbatim>\<open>undefined\<close>, and calling \<^verbatim>\<open>push\<close> on
  it throws a TypeError, which rejects the load.
\<close>

datatype js_error = TypeError

definition push_bucket :: "'a list list \<Rightarrow> nat option \<Rightarrow> 'a \<Rightarrow> js_error + 'a list list" where
  "push_bucket table idx x =
     (case idx of
        None \<Rightarrow> Inl TypeError
      | Some i \<Rightarrow> if i < length table then Inr (table[i := table ! i @ [x]]) else Inl TypeError)"

definition bucket_row ::
  "trip list list \<times> trip list list \<Rightarrow> trip \<Rightarrow> js_error + trip list list \<times> trip list list" where
  "bucket_row tabs t =
     (let startedMinutes = minutesSinceMidnight (started_at t);
          endedMinutes = minutesSinceMidnight (ended_at t)
      in case push_bucket (fst tabs) startedMinutes t of
           Inl e \<Rightarrow> Inl e
         | Inr dep \<Rightarrow>
             (case push_bucket (snd tabs) endedMinutes t of
                Inl e \<Rightarrow> Inl e
              | Inr arr \<Rightarrow> Inr (dep, arr)))"

fun bucket_rows ::
  "trip list list \<times> trip list list \<Rightarrow> trip list \<Rightarrow> js_error + trip list list \<times> trip list list" where
  "bucket_rows tabs [] = Inr tabs"
| "bucket_rows tabs (t # ts) =
     (case bucket_row tabs t of Inl e \<Rightarrow> Inl e | Inr tabs' \<Rightarrow> bucket_rows tabs' ts)"

text \<open>\<^verbatim>\<open>Array.from({ length: 1440 }, () => [])\<close>\<close>

definition empty_table :: "trip list list" where
  "empty_table = replicate 1440 []"

definition bucket_trips :: "trip list \<Rightarrow> js_error + trip list list \<times> trip list list" where
  "bucket_trips trips = bucket_rows (empty_table, empty_table) trips"

section \<open>The unnamed variant: the linear scan\<close>

text \<open>
  \<^verbatim>\<open>startM >= min && startM <= max\<close>; every comparison with NaN is false.
\<close>

definition in_range :: "nat option \<Rightarrow> int \<Rightarrow> int \<Rightarrow> bool" where
  "in_range x lo hi = (case x of None \<Rightarrow> False | Some v \<Rightarrow> int v \<ge> lo \<and> int v \<le> hi)"

definition filterTripsByTime :: "trip list \<Rightarrow> int \<Rightarrow> trip list" where
  "filterTripsByTime allTrips minute =
     (if minute = - 1 then allTrips
      else
        let min = minute - 60;
            max = minute + 60
        in filter (\<lambda>trip.
             let startM = minutesSinceMidnight (started_at trip);
                 endM = minutesSinceMidnight (ended_at trip)
             in in_range startM min max \<or> in_range endM min max) allTrips)"

section \<open>Aggregation per station\<close>

text \<open>
  \<^verbatim>\<open>d3.rollup(values, reduce, key)\<close> groups the values by key, each group in input
  order, and reduces every group; the result is a Map. \<^verbatim>\<open>m.get(id) ?? 0\<close> reads it
  with the default 0.
\<close>

definition d3_group :: "('a \<Rightarrow> 'k) \<Rightarrow> 'a list \<Rightarrow> ('k \<rightharpoonup> 'a list)" where
  "d3_group key xs =
     fold (\<lambda>x groups.
        groups(key x \<mapsto> (case groups (key x) of None \<Rightarrow> [x] | Some g \<Rightarrow> g @ [x])))
       xs Map.empty"

definition d3_rollup :: "('a list \<Rightarrow> 'b) \<Rightarrow> ('a \<Rightarrow> 'k) \<Rightarrow> 'a list \<Rightarrow> ('k \<rightharpoonup> 'b)" where
  "d3_rollup reduce key xs = (\<lambda>k. map_option reduce (d3_group key xs k))"

definition get_or_zero :: "('k \<rightharpoonup> nat) \<Rightarrow> 'k \<Rightarrow> nat" where
  "get_or_zero m k = (case m k of None \<Rightarrow> 0 | Some c \<Rightarrow> c)"

text \<open>
  Station objects live in a store: an address is an index into the list of objects, and
  an array of stations is a list of addresses. An allocation appends to the store.
\<close>

type_synonym ref = nat
type_synonym heap = "station list"

definition wf_refs :: "heap \<Rightarrow> ref list \<Rightarrow> bool" where
  "wf_refs h rs = list_all (\<lambda>r. r < length h) rs"

text \<open>The callback of map.js: it assigns the three fields of the station it is given.\<close>

definition assign_traffic :: "(string \<rightharpoonup> nat) \<Rightarrow> (string \<rightharpoonup> nat) \<Rightarrow> station \<Rightarrow> station" where
  "assign_traffic arrivals_map departures_map st =
     (let id = short_name st;
          arrivalsCount = get_or_zero arrivals_map id;
          departuresCount = get_or_zero departures_map id
      in st\<lparr>arrivals := Some arrivalsCount,
            departures := Some departuresCount,
            totalTraffic := Some (arrivalsCount + departuresCount)\<rparr>)"

text \<open>
  \<^verbatim>\<open>stations.map((station) => { station.x = ...; return station; })\<close>: every object is
  written in place, in array order, and the new array holds the same addresses.
\<close>

fun map_in_place :: "(station \<Rightarrow> station) \<Rightarrow> ref list \<Rightarrow> heap \<Rightarrow> heap" where
  "map_in_place f [] h = h"
| "map_in_place f (r # rs) h = map_in_place f rs (h[r := f (h ! r)])"

definition computeStationTraffic ::
  "trip list list \<Rightarrow> trip list list \<Rightarrow> ref list \<Rightarrow> int \<Rightarrow> heap \<Rightarrow> heap \<times> ref list" where
  "computeStationTraffic departuresByMinute arrivalsByMinute stations currentTimeFilter h =
     (let departures_map =
            d3_rollup length start_station_id (filterByMinute departuresByMinute currentTimeFilter);
          arrivals_map =
            d3_rollup length end_station_id (filterByMinute arrivalsByMinute currentTimeFilter)
      in (map_in_place (assign_traffic arrivals_map departures_map) stations h, stations))"

text \<open>
  The callback of the unnamed variant: \<^verbatim>\<open>{...station, departures, arrivals, totalTraffic}\<close>
  is a new object with the station's fields and the three counts.
\<close>

definition copy_with_traffic :: "(string \<rightharpoonup> nat) \<Rightarrow> (string \<rightharpoonup> nat) \<Rightarrow> station \<Rightarrow> station" where
  "copy_with_traffic departures_map arrivals_map st =
     (let id = short_name st;
          dep = get_or_zero departures_map id;
          arr = get_or_zero arrivals_map id
      in st\<lparr>departures := Some dep, arrivals := Some arr, totalTraffic := Some (dep + arr)\<rparr>)"

fun map_fresh :: "(station \<Rightarrow> station) \<Rightarrow> ref list \<Rightarrow> heap \<Rightarrow> heap \<times> ref list" where
  "map_fresh f [] h = (h, [])"
| "map_fresh f (r # rs) h =
     (let (h', out) = map_fresh f rs (h @ [f (h ! r)]) in (h', length h # out))"

definition computeStationTraffic_scan ::
  "ref list \<Rightarrow> trip list \<Rightarrow> int \<Rightarrow> heap \<Rightarrow> heap \<times> ref list" where
  "computeStationTraffic_scan stations trips currentTime h =
     (let activeTrips = filterTripsByTime trips currentTime;
          departures_map = d3_rollup length start_station_id activeTrips;
          arrivals_map = d3_rollup length end_station_id activeTrips
      in map_fresh (copy_with_traffic departures_map arrivals_map) stations h)"

text \<open>The stations an array of addresses denotes.\<close>

definition deref :: "heap \<Rightarrow> ref list \<Rightarrow> station list" where
  "deref h rs = map ((!) h) rs"

section \<open>The d3 scales the two variants share\<close>

text \<open>
  A JavaScript number that a division of two counts can produce: a finite value,
  \<^verbatim>\<open>Infinity\<close> (\<open>n / 0\<close> with \<open>n > 0\<close>) or NaN (\<open>0 / 0\<close>, or an \<^verbatim>\<open>undefined\<close>
  operand).
\<close>

datatype jsnum = Num real | PosInf | NaN

definition js_div :: "nat option \<Rightarrow> nat \<Rightarrow> jsnum" where
  "js_div a b =
     (case a of
        None \<Rightarrow> NaN
      | Some x \<Rightarrow> if b = 0 then (if x = 0 then NaN else PosInf) else Num (real x / real b))"

text \<open>\<^verbatim>\<open>d.totalTraffic > 0 ? d.departures / d.totalTraffic : 0\<close>\<close>

definition departure_ratio :: "station \<Rightarrow> jsnum" where
  "departure_ratio d =
     (case totalTraffic d of
        None \<Rightarrow> Num 0
      | Some traffic \<Rightarrow> if traffic > 0 then js_div (departures d) traffic else Num 0)"

text \<open>
  \<^verbatim>\<open>d3.scaleQuantize().domain([x0, x1]).range(rng)\<close>: with \<open>n = length rng - 1\<close> the
  thresholds are \<open>((i + 1) * x1 - (i - n) * x0) / (n + 1)\<close> for \<open>i < n\<close>, and the scale
  returns \<open>rng[bisect(thresholds, x, 0, n)]\<close>, or \<^verbatim>\<open>undefined\<close> for NaN. \<^verbatim>\<open>bisect\<close> is
  d3's right bisection, a binary search.
\<close>

definition quantize_thresholds :: "real \<Rightarrow> real \<Rightarrow> nat \<Rightarrow> real list" where
  "quantize_thresholds x0 x1 n =
     map (\<lambda>i. ((real i + 1) * x1 - (real i - real n) * x0) / (real n + 1)) [0..<n]"

function bisect_right :: "real list \<Rightarrow> real \<Rightarrow> nat \<Rightarrow> nat \<Rightarrow> nat" where
  "bisect_right a x lo hi =
     (if lo < hi then
        (let mid = (lo + hi) div 2
         in if a ! mid \<le> x then bisect_right a x (mid + 1) hi else bisect_right a x lo mid)
      else lo)"
  by pat_completeness auto
termination
  by (relation "measure (\<lambda>(a, x, lo, hi). hi - lo)") auto

declare bisect_right.simps [simp del]

definition scaleQuantize :: "real \<times> real \<Rightarrow> real list \<Rightarrow> jsnum \<Rightarrow> real option" where
  "scaleQuantize domain_ends rng x =
     (let n = length rng - 1;
          thresholds = quantize_thresholds (fst domain_ends) (snd domain_ends) n
      in case x of
           NaN \<Rightarrow> None
         | PosInf \<Rightarrow> Some (rng ! n)
         | Num v \<Rightarrow> Some (rng ! bisect_right thresholds v 0 n))"

text \<open>\<^verbatim>\<open>d3.scaleQuantize().domain([0, 1]).range([0, 0.5, 1])\<close>\<close>

definition stationFlow :: "jsnum \<Rightarrow> real option" where
  "stationFlow = scaleQuantize (0, 1) [0, 1 / 2, 1]"

text \<open>The value of the style \<^verbatim>\<open>--departure-ratio\<close> of a station's circle.\<close>

definition flow_level :: "station \<Rightarrow> real option" where
  "flow_level d = stationFlow (departure_ratio d)"

text \<open>
  \<^verbatim>\<open>d3.scaleSqrt()\<close> is d3's continuous scale with the transform
  \<^verbatim>\<open>x < 0 ? -Math.sqrt(-x) : Math.sqrt(x)\<close>, over a two-point domain and range:
  \<^verbatim>\<open>bimap\<close> composes \<^verbatim>\<open>normalize(d0, d1)\<close> with the number interpolator of the range.
  \<^verbatim>\<open>normalize(a, b)\<close> is \<^verbatim>\<open>(b -= a) ? x => (x - a) / b : constant(isNaN(b) ? NaN : 0.5)\<close>.
  A domain bound is \<open>None\<close> when it is NaN (\<^verbatim>\<open>+undefined\<close>); a result \<open>None\<close> is NaN or
  \<^verbatim>\<open>undefined\<close>, no finite number.
\<close>

record sqrt_scale =
  sc_domain :: "real option \<times> real option"
  sc_range :: "real \<times> real"

definition scaleSqrt :: sqrt_scale where
  "scaleSqrt = \<lparr>sc_domain = (Some 0, Some 1), sc_range = (0, 1)\<rparr>"

definition transformSqrt :: "real \<Rightarrow> real" where
  "transformSqrt x = (if x < 0 then - sqrt (- x) else sqrt x)"

definition normalize :: "real option \<Rightarrow> real option \<Rightarrow> real \<Rightarrow> real option" where
  "normalize a b x =
     (case (a, b) of
        (Some a', Some b') \<Rightarrow> if b' - a' \<noteq> 0 then Some ((x - a') / (b' - a')) else Some (1 / 2)
      | _ \<Rightarrow> None)"

definition interpolateNumber :: "real \<Rightarrow> real \<Rightarrow> real \<Rightarrow> real" where
  "interpolateNumber a b t = a * (1 - t) + b * t"

definition bimap :: "real option \<times> real option \<Rightarrow> real \<times> real \<Rightarrow> real \<Rightarrow> real option" where
  "bimap domain_ends rng x =
     (let d0 = fst domain_ends; d1 = snd domain_ends; r0 = fst rng; r1 = snd rng
      in if (case (d0, d1) of (Some a, Some b) \<Rightarrow> b < a | _ \<Rightarrow> False)
         then map_option (interpolateNumber r1 r0) (normalize d1 d0 x)
         else map_option (interpolateNumber r0 r1) (normalize d0 d1 x))"

text \<open>\<^verbatim>\<open>scale(x)\<close> for \<open>x\<close> a count or \<^verbatim>\<open>undefined\<close>.\<close>

definition scale_apply :: "sqrt_scale \<Rightarrow> nat option \<Rightarrow> real option" where
  "scale_apply sc x =
     (case x of
        None \<Rightarrow> None
      | Some n \<Rightarrow>
          bimap (map_option transformSqrt (fst (sc_domain sc)),
                 map_option transformSqrt (snd (sc_domain sc)))
            (sc_range sc) (transformSqrt (real n)))"

text \<open>
  \<^verbatim>\<open>d3.max(values, accessor)\<close>: the greatest defined value, \<^verbatim>\<open>undefined\<close> when there
  is none.
\<close>

definition d3_max :: "nat option list \<Rightarrow> nat option" where
  "d3_max values =
     fold (\<lambda>value mx.
        case value of
          None \<Rightarrow> mx
        | Some v \<Rightarrow> (case mx of None \<Rightarrow> Some v | Some m \<Rightarrow> if m < v then Some v else mx))
       values None"

section \<open>map.js: load and filter changes\<close>

text \<open>
  The state of the page: the two bucket tables, the store of station objects, the array
  \<^verbatim>\<open>stationsData\<close>, the radius scale, the time filter and the stations bound to the
  circles.
\<close>

record app =
  departuresByMinute :: "trip list list"
  arrivalsByMinute :: "trip list list"
  store :: heap
  stationsData :: "ref list"
  radiusScale :: sqrt_scale
  timeFilter :: int
  shown :: "ref list"

text \<open>
  The load handler once stations and trips have arrived: bucket the trips, aggregate with
  the filter \<open>-1\<close>, set the domain of the radius scale. A throwing row conversion
  abandons the load.
\<close>

definition on_load :: "heap \<Rightarrow> ref list \<Rightarrow> trip list \<Rightarrow> js_error + app" where
  "on_load h stations_json trips =
     (case bucket_trips trips of
        Inl e \<Rightarrow> Inl e
      | Inr tabs \<Rightarrow>
          (let res = computeStationTraffic (fst tabs) (snd tabs) stations_json (- 1) h;
               h1 = fst res;
               stations = snd res
           in Inr \<lparr>departuresByMinute = fst tabs,
                   arrivalsByMinute = snd tabs,
                   store = h1,
                   stationsData = stations_json,
                   radiusScale = scaleSqrt
                     \<lparr>sc_range := (0, 25),
                      sc_domain :=
                        (Some 0, map_option real (d3_max (map totalTraffic (deref h1 stations))))\<rparr>,
                   timeFilter = - 1,
                   shown = stations\<rparr>))"

definition updateScatterPlot :: "int \<Rightarrow> app \<Rightarrow> app" where
  "updateScatterPlot currentTimeFilter st =
     (let res = computeStationTraffic (departuresByMinute st) (arrivalsByMinute st)
                  (stationsData st) currentTimeFilter (store st);
          filteredStations = snd res
      in st\<lparr>store := fst res,
            radiusScale := (radiusScale st)
              \<lparr>sc_range := (if currentTimeFilter = - 1 then (0, 25) else (3, 50))\<rparr>,
            shown := filteredStations\<rparr>)"

text \<open>The slider handler, given \<^verbatim>\<open>Number(timeSlider.value)\<close>.\<close>

definition updateTimeDisplay :: "int \<Rightarrow> app \<Rightarrow> app" where
  "updateTimeDisplay v st = updateScatterPlot v (st\<lparr>timeFilter := v\<rparr>)"

text \<open>
  A session: the load, then the slider values in the order they arrive. The load handler
  itself ends with a call of the slider handler on the slider's initial value, which is
  the first of these values.
\<close>

definition session :: "heap \<Rightarrow> ref list \<Rightarrow> trip list \<Rightarrow> int list \<Rightarrow> js_error + app" where
  "session h stations_json trips inputs =
     (case on_load h stations_json trips of
        Inl e \<Rightarrow> Inl e
      | Inr st \<Rightarrow> Inr (fold updateTimeDisplay inputs st))"

text \<open>What the circles show: the stations bound to them, their radii and flow levels.\<close>

definition shown_stations :: "app \<Rightarrow> station list" where
  "shown_stations st = deref (store st) (shown st)"

definition radii :: "app \<Rightarrow> real option list" where
  "radii st = map (\<lambda>d. scale_apply (radiusScale st) (totalTraffic d)) (shown_stations st)"

definition domain_upper :: "app \<Rightarrow> real option" where
  "domain_upper st = snd (sc_domain (radiusScale st))"

definition current_max :: "app \<Rightarrow> real option" where
  "current_max st = map_option real (d3_max (map totalTraffic (shown_stations st)))"

section \<open>The unnamed variant: load and filter changes\<close>

record app_scan =
  stations_scan :: "ref list"
  trips_scan :: "trip list"
  store_scan :: heap
  radiusScale_scan :: sqrt_scale
  timeFilter_scan :: int
  stationsWithTraffic :: "ref list"

definition on_load_scan :: "heap \<Rightarrow> ref list \<Rightarrow> trip list \<Rightarrow> app_scan" where
  "on_load_scan h stations_json trips =
     (let res = computeStationTraffic_scan stations_json trips (- 1) h;
          h1 = fst res;
          withTraffic = snd res
      in \<lparr>stations_scan = stations_json,
          trips_scan = trips,
          store_scan = h1,
          radiusScale_scan = scaleSqrt
            \<lparr>sc_range := (0, 25),
             sc_domain :=
               (Some 0, map_option real (d3_max (map totalTraffic (deref h1 withTraffic))))\<rparr>,
          timeFilter_scan = - 1,
          stationsWithTraffic = withTraffic\<rparr>)"

definition updateScatterPlot_scan :: "int \<Rightarrow> app_scan \<Rightarrow> app_scan" where
  "updateScatterPlot_scan currentTime st =
     (let res = computeStationTraffic_scan (stations_scan st) (trips_scan st) currentTime
                  (store_scan st)
      in st\<lparr>store_scan := fst res,
            stationsWithTraffic := snd res,
            radiusScale_scan := (radiusScale_scan st)
              \<lparr>sc_range := (if currentTime = - 1 then (0, 25) else (3, 50))\<rparr>\<rparr>)"

definition updateTimeDisplay_scan :: "int \<Rightarrow> app_scan \<Rightarrow> app_scan" where
  "updateTimeDisplay_scan v st = updateScatterPlot_scan v (st\<lparr>timeFilter_scan := v\<rparr>)"

definition session_scan :: "heap \<Rightarrow> ref list \<Rightarrow> trip list \<Rightarrow> int list \<Rightarrow> app_scan" where
  "session_scan h stations_json trips inputs =
     fold updateTimeDisplay_scan inputs (on_load_scan h stations_json trips)"

definition domain_upper_scan :: "app_scan \<Rightarrow> real option" where
  "domain_upper_scan st = snd (sc_domain (radiusScale_scan st))"

definition current_max_scan :: "app_scan \<Rightarrow> real option" where
  "current_max_scan st =
     map_option real (d3_max (map totalTraffic (deref (store_scan st) (stationsWithTraffic st))))"

section \<open>Specification-side notions\<close>

text \<open>
  The bucket table of a trip list in closed form: bucket \<open>i\<close> holds, in input order, the
  trips whose timestamp falls in minute \<open>i\<close>.
\<close>

definition buckets :: "(trip \<Rightarrow> js_date) \<Rightarrow> trip list \<Rightarrow> trip list list" where
  "buckets stamp trips =
     map (\<lambda>i. filter (\<lambda>t. minutesSinceMidnight (stamp t) = Some i) trips) [0..<1440]"

text \<open>A minute of the day lies in the window of a query.\<close>

definition in_window :: "int \<Rightarrow> nat option \<Rightarrow> bool" where
  "in_window minute k = (case k of None \<Rightarrow> False | Some i \<Rightarrow> i \<in> set (spec_window minute))"

text \<open>
  The contract of the aggregator: \<open>s'\<close> is the station \<open>s\<close> with its departures counted
  over the departure trips, its arrivals over the arrival trips, and their sum.
\<close>

definition aggregated :: "trip list \<Rightarrow> trip list \<Rightarrow> station \<Rightarrow> station \<Rightarrow> bool" where
  "aggregated departureTrips arrivalTrips s s' =
     (let dep = length (filter (\<lambda>t. start_station_id t = short_name s) departureTrips);
          arr = length (filter (\<lambda>t. end_station_id t = short_name s) arrivalTrips)
      in short_name s' = short_name s \<and> lon s' = lon s \<and> lat s' = lat s \<and>
         departures s' = Some dep \<and> arrivals s' = Some arr \<and>
         totalTraffic s' = Some (arr + dep))"

text \<open>Two station records carry the same three counts.\<close>

definition same_traffic :: "station \<Rightarrow> station \<Rightarrow> bool" where
  "same_traffic a b =
     (arrivals a = arrivals b \<and> departures a = departures b \<and> totalTraffic a = totalTraffic b)"

text \<open>
  The flow level as the specification words it: the departure fraction, 0 when the total
  traffic is 0, cut into the three levels 0, 0.5 and 1 over \<open>[0, 1]\<close>.
\<close>

definition spec_fraction :: "nat \<Rightarrow> nat \<Rightarrow> real" where
  "spec_fraction dep traffic = (if traffic = 0 then 0 else real dep / real traffic)"

definition spec_quantize :: "real \<Rightarrow> real" where
  "spec_quantize x = (if x < 1 / 3 then 0 else if x < 2 / 3 then 1 / 2 else 1)"

text \<open>The least radius of the range, and whether every circle has it.\<close>

definition range_min :: "app \<Rightarrow> real" where
  "range_min st = fst (sc_range (radiusScale st))"

definition radii_at_range_min :: "app \<Rightarrow> bool" where
  "radii_at_range_min st = list_all (\<lambda>r. r = Some (range_min st)) (radii st)"

text \<open>The midpoint of the range.\<close>

definition range_mid :: "app \<Rightarrow> real" where
  "range_mid st = (fst (sc_range (radiusScale st)) + snd (sc_range (radiusScale st))) / 2"

section \<open>Example data\<close>

text \<open>A trip between two stations with its start and end minute of the day.\<close>

definition trip_at :: "string \<Rightarrow> string \<Rightarrow> nat \<Rightarrow> nat \<Rightarrow> trip" where
  "trip_at a b s e =
     \<lparr>start_station_id = a, end_station_id = b,
      started_at = Date (s div 60) (s mod 60), ended_at = Date (e div 60) (e mod 60)\<rparr>"

text \<open>A station object as the stations JSON gives it, without derived fields.\<close>

definition station_json :: "string \<Rightarrow> real \<Rightarrow> real \<Rightarrow> station" where
  "station_json name x y =
     \<lparr>short_name = name, lon = x, lat = y,
      arrivals = None, departures = None, totalTraffic = None\<rparr>"

text \<open>
  A bucket table with three trips: one at minute 1430, one at minute 50, one at
  minute 200.
\<close>

definition wrap_table :: "trip list list" where
  "wrap_table =
     empty_table
       [1430 := [trip_at ''A'' ''B'' 1430 1435],
        50 := [trip_at ''B'' ''A'' 50 70],
        200 := [trip_at ''A'' ''B'' 200 210]]"

text \<open>
  The two trips of the specification's end-to-end scenario: A to B from 08:05 to 08:20
  and B to A from 08:10 to 08:25.
\<close>

definition spec_trips :: "trip list" where
  "spec_trips = [trip_at ''A'' ''B'' 485 500, trip_at ''B'' ''A'' 490 505]"

text \<open>Stores of station objects as the stations JSON gives them, and a single trip.\<close>

definition ab_heap :: heap where
  "ab_heap = [station_json ''A'' 0 0, station_json ''B'' 1 1, station_json ''C'' 2 2]"

definition a_heap :: heap where
  "a_heap = [station_json ''A'' 0 0]"

definition one_trip :: "trip list" where
  "one_trip = [trip_at ''A'' ''A'' 100 200]"

text \<open>Station A after an aggregation that found no trip, and after one that found one
  departure and one arrival.\<close>

definition zero_station :: station where
  "zero_station =
     (station_json ''A'' 0 0)\<lparr>arrivals := Some 0, departures := Some 0, totalTraffic := Some 0\<rparr>"

definition busy_station :: station where
  "busy_station =
     (station_json ''A'' 0 0)\<lparr>arrivals := Some 1, departures := Some 1, totalTraffic := Some 2\<rparr>"

section \<open>Slices and the window of a query\<close>

lemma take_drop_nth_upt:
  "b \<le> length xs \<Longrightarrow> take (b - a) (drop a xs) = map ((!) xs) [a..<b]"
  by (rule nth_equalityI) auto

lemma slice_nth_upt:
  assumes "a \<le> b" and "b \<le> length xs"
  shows "slice xs (int a) (int b) = map ((!) xs) [a..<b]"
  using assms by (simp add: slice_def relative_index_def min_def take_drop_nth_upt)

lemma slice_from_nth_upt:
  assumes "a \<le> length xs"
  shows "slice_from xs (int a) = map ((!) xs) [a..<length xs]"
proof -
  have "drop a xs = take (length xs - a) (drop a xs)" by simp
  also have "\<dots> = map ((!) xs) [a..<length xs]" by (rule take_drop_nth_upt) simp
  finally show ?thesis using assms by (simp add: slice_from_def relative_index_def min_def)
qed

lemma js_rem_nonneg: "0 \<le> a \<Longrightarrow> js_rem a 1440 = a mod 1440"
  by (cases "a = 0") (simp_all add: js_rem_def)

lemma filterByMinute_window:
  assumes len: "length table = 1440" and lo: "0 \<le> m" and hi: "m < 1440"
  shows "filterByMinute table m = concat (map ((!) table) (spec_window m))"
proof -
  define a where "a = nat ((m - 60 + 1440) mod 1440)"
  define b where "b = nat ((m + 60) mod 1440)"
  have ra: "js_rem (m - 60 + 1440) 1440 = int a"
    using lo by (simp add: js_rem_nonneg a_def)
  have rb: "js_rem (m + 60) 1440 = int b"
    using lo by (simp add: js_rem_nonneg b_def)
  have a_lt: "a < 1440" and b_lt: "b < 1440"
    by (simp_all add: a_def b_def nat_less_iff)
  have m1: "m \<noteq> - 1" using lo by simp
  have code: "filterByMinute table m =
      (if int b < int a then concat (slice_from table (int a) @ slice table 0 (int b))
       else concat (slice table (int a) (int b)))"
    unfolding filterByMinute_def Let_def ra rb using m1 by simp
  have win: "spec_window m = (if a \<le> b then [a..<b] else [a..<1440] @ [0..<b])"
    unfolding spec_window_def Let_def a_def b_def by (rule refl)
  show ?thesis
  proof (cases "a \<le> b")
    case True
    then have "slice table (int a) (int b) = map ((!) table) [a..<b]"
      using b_lt len by (intro slice_nth_upt) simp_all
    with True show ?thesis by (simp add: code win)
  next
    case False
    have s1: "slice_from table (int a) = map ((!) table) [a..<1440]"
      using slice_from_nth_upt [of a table] a_lt len by simp
    have s2: "slice table 0 (int b) = map ((!) table) [0..<b]"
      using slice_nth_upt [of 0 b table] b_lt len by simp
    from False show ?thesis by (simp add: code win s1 s2)
  qed
qed

lemma spec_window_cases:
  assumes "0 \<le> m" and "m < 1440"
  shows "spec_window m =
     (if m < 60 then [nat (m + 1380)..<1440] @ [0..<nat (m + 60)]
      else if m < 1380 then [nat (m - 60)..<nat (m + 60)]
      else [nat (m - 60)..<1440] @ [0..<nat (m - 1380)])"
proof -
  have e1: "(m - 60 + 1440) mod 1440 = (if m < 60 then m + 1380 else m - 60)"
  proof (cases "m < 60")
    case True
    then have "(m + 1380) mod 1440 = m + 1380" using assms by (intro mod_pos_pos_trivial) auto
    moreover have "m - 60 + 1440 = m + 1380" by simp
    ultimately show ?thesis using True by simp
  next
    case False
    then have "(m - 60) mod 1440 = m - 60" using assms by (intro mod_pos_pos_trivial) auto
    moreover have "(m - 60 + 1440) mod 1440 = (m - 60) mod 1440" by (rule mod_add_self2)
    ultimately show ?thesis using False by simp
  qed
  have e2: "(m + 60) mod 1440 = (if m < 1380 then m + 60 else m - 1380)"
  proof (cases "m < 1380")
    case True
    then have "(m + 60) mod 1440 = m + 60" using assms by (intro mod_pos_pos_trivial) auto
    then show ?thesis using True by simp
  next
    case False
    then have "(m - 1380) mod 1440 = m - 1380" using assms by (intro mod_pos_pos_trivial) auto
    moreover have "(m - 1380 + 1440) mod 1440 = (m - 1380) mod 1440" by (rule mod_add_self2)
    moreover have "m - 1380 + 1440 = m + 60" by simp
    ultimately show ?thesis using False by simp
  qed
  show ?thesis unfolding spec_window_def Let_def e1 e2 using assms by auto
qed

lemma spec_window_bound:
  assumes "0 \<le> m" and "m < 1440"
  shows "list_all (\<lambda>i. i < 1440) (spec_window m)"
  using assms by (auto simp: spec_window_cases list_all_iff)

lemma spec_window_distinct:
  assumes "0 \<le> m" and "m < 1440"
  shows "distinct (spec_window m)"
  using assms by (auto simp: spec_window_cases)

lemma spec_window_length:
  assumes "0 \<le> m" and "m < 1440"
  shows "length (spec_window m) = 120"
  using assms by (auto simp: spec_window_cases)

lemma concat_singletons: "concat (map (\<lambda>i. [i]) xs) = xs"
  by (induction xs) simp_all

lemma covered_indices_window:
  assumes "0 \<le> m" and "m < 1440"
  shows "covered_indices m = spec_window m"
proof -
  have e: "map ((!) index_table) (spec_window m) = map (\<lambda>i. [i]) (spec_window m)"
    using spec_window_bound [OF assms] by (auto simp: index_table_def list_all_iff)
  have len: "length index_table = 1440" by (simp add: index_table_def)
  show ?thesis
    unfolding covered_indices_def filterByMinute_window [OF len assms] e
    by (rule concat_singletons)
qed

section \<open>The windowed query (map.js)\<close>

text \<open>
  Claim C1. For a bucket table of 1440 slots and a minute \<open>m\<close> in \<open>[0, 1439]\<close>,
  \<^verbatim>\<open>filterByMinute\<close> returns the buckets of the window \<open>[minMinute, maxMinute)\<close>, or
  \<open>[minMinute, 1440)\<close> followed by \<open>[0, maxMinute)\<close> when it wraps, concatenated in that
  order, each bucket in its insertion order. The witness is the query at minute 30 on a
  table with trips at the minutes 1430, 50 and 200: the first two are returned, in this
  order, and the third is not.
\<close>

theorem window_query:
  assumes "length table = 1440" and "0 \<le> m" and "m < 1440"
  shows "filterByMinute table m = concat (map ((!) table) (spec_window m))"
  using assms by (rule filterByMinute_window)

theorem window_query_witness:
  "filterByMinute wrap_table 30 = [trip_at ''A'' ''B'' 1430 1435, trip_at ''B'' ''A'' 50 70]"
proof -
  have "length wrap_table = 1440" by (simp add: wrap_table_def empty_table_def)
  then have "filterByMinute wrap_table 30 = concat (map ((!) wrap_table) (spec_window 30))"
    by (intro window_query) simp_all
  also have "\<dots> = [trip_at ''A'' ''B'' 1430 1435, trip_at ''B'' ''A'' 50 70]"
    by code_simp
  finally show ?thesis .
qed

text \<open>
  Claim C6, as amended. For a minute \<open>m\<close> in \<open>[0, 1439]\<close> the bucket indices the query
  covers are pairwise distinct and there are 120 of them: the window is half-open, so
  the minute \<open>m + 60\<close> is not covered. The claim's count of 121 fails at \<open>m = 500\<close>, where
  the covered indices are 440 up to 559.
\<close>

theorem window_size:
  assumes "0 \<le> m" and "m < 1440"
  shows "distinct (covered_indices m) \<and> card (set (covered_indices m)) = 120"
  using assms
  by (simp add: covered_indices_window spec_window_distinct spec_window_length distinct_card)

theorem window_size_witness:
  "distinct (covered_indices 500) \<and> card (set (covered_indices 500)) = 120"
  using window_size [of 500] by simp

theorem window_size_counterexample: "card (set (covered_indices 500)) \<noteq> 121"
  by (simp add: covered_indices_window spec_window_cases)

section \<open>Bucketing\<close>

lemma valid_date_minute: "valid_date d \<Longrightarrow> \<exists>k<1440. minutesSinceMidnight d = Some k"
  by (cases d) (auto simp: minutesSinceMidnight_def)

lemma push_bucket_Inr:
  "push_bucket table idx x = Inr table' \<longleftrightarrow>
     (\<exists>i. idx = Some i \<and> i < length table \<and> table' = table[i := table ! i @ [x]])"
  by (auto simp: push_bucket_def split: option.splits)

lemma bucket_row_Inr:
  "bucket_row (dep, arr) t = Inr (dep', arr') \<longleftrightarrow>
     (\<exists>i j. minutesSinceMidnight (started_at t) = Some i \<and> i < length dep \<and>
            minutesSinceMidnight (ended_at t) = Some j \<and> j < length arr \<and>
            dep' = dep[i := dep ! i @ [t]] \<and> arr' = arr[j := arr ! j @ [t]])"
  by (auto simp: bucket_row_def Let_def push_bucket_def split: sum.splits option.splits if_splits)

lemma push_spread:
  assumes "k t = Some i" and "i < length tab"
  shows "map (\<lambda>j. (tab[i := tab ! i @ [t]]) ! j @ filter (\<lambda>t. k t = Some j) ts) [0..<length tab]
       = map (\<lambda>j. tab ! j @ filter (\<lambda>t. k t = Some j) (t # ts)) [0..<length tab]"
  using assms by (auto simp: nth_list_update)

lemma bucket_rows_Inr:
  assumes "bucket_rows (dep, arr) ts = Inr (dep', arr')"
  shows "dep' = map (\<lambda>i. dep ! i @ filter (\<lambda>t. minutesSinceMidnight (started_at t) = Some i) ts)
                  [0..<length dep] \<and>
         arr' = map (\<lambda>i. arr ! i @ filter (\<lambda>t. minutesSinceMidnight (ended_at t) = Some i) ts)
                  [0..<length arr] \<and>
         list_all (\<lambda>t. (\<exists>i<length dep. minutesSinceMidnight (started_at t) = Some i) \<and>
                       (\<exists>i<length arr. minutesSinceMidnight (ended_at t) = Some i)) ts"
  using assms
proof (induction ts arbitrary: dep arr)
  case Nil
  then show ?case by (simp add: map_nth)
next
  case (Cons t ts)
  from Cons.prems obtain d1 a1 where
    row: "bucket_row (dep, arr) t = Inr (d1, a1)" and rest: "bucket_rows (d1, a1) ts = Inr (dep', arr')"
    by (auto split: sum.splits)
  from row obtain i j where
    i: "minutesSinceMidnight (started_at t) = Some i" "i < length dep" "d1 = dep[i := dep ! i @ [t]]" and
    j: "minutesSinceMidnight (ended_at t) = Some j" "j < length arr" "a1 = arr[j := arr ! j @ [t]]"
    unfolding bucket_row_Inr by blast
  have len: "length d1 = length dep" "length a1 = length arr" using i j by simp_all
  note IH = Cons.IH [OF rest, unfolded len]
  have "dep' = map (\<lambda>k. dep ! k @ filter (\<lambda>t. minutesSinceMidnight (started_at t) = Some k) (t # ts))
                 [0..<length dep]"
    using IH i(1,2) unfolding i(3) by (simp only: push_spread [where k = "\<lambda>t. minutesSinceMidnight (started_at t)"])
  moreover have "arr' = map (\<lambda>k. arr ! k @ filter (\<lambda>t. minutesSinceMidnight (ended_at t) = Some k) (t # ts))
                 [0..<length arr]"
    using IH j(1,2) unfolding j(3) by (simp only: push_spread [where k = "\<lambda>t. minutesSinceMidnight (ended_at t)"])
  moreover have "list_all (\<lambda>t. (\<exists>i<length dep. minutesSinceMidnight (started_at t) = Some i) \<and>
                       (\<exists>i<length arr. minutesSinceMidnight (ended_at t) = Some i)) (t # ts)"
    using IH i j by simp
  ultimately show ?case by blast
qed

lemma bucket_rows_total:
  assumes "list_all (\<lambda>t. valid_date (started_at t) \<and> valid_date (ended_at t)) ts"
    and "length dep = 1440" and "length arr = 1440"
  shows "\<exists>dep' arr'. bucket_rows (dep, arr) ts = Inr (dep', arr')"
  using assms
proof (induction ts arbitrary: dep arr)
  case Nil
  then show ?case by simp
next
  case (Cons t ts)
  from Cons.prems(1) obtain i j where
    i: "minutesSinceMidnight (started_at t) = Some i" "i < 1440" and
    j: "minutesSinceMidnight (ended_at t) = Some j" "j < 1440"
    using valid_date_minute [of "started_at t"] valid_date_minute [of "ended_at t"] by auto
  let ?d1 = "dep[i := dep ! i @ [t]]" and ?a1 = "arr[j := arr ! j @ [t]]"
  have row: "bucket_row (dep, arr) t = Inr (?d1, ?a1)"
    unfolding bucket_row_Inr using i j Cons.prems(2,3) by simp
  have "\<exists>dep' arr'. bucket_rows (?d1, ?a1) ts = Inr (dep', arr')"
    using Cons.prems by (intro Cons.IH) simp_all
  then show ?case by (simp add: row)
qed

lemma bucket_trips_Inr:
  assumes "bucket_trips trips = Inr (dep, arr)"
  shows "dep = buckets started_at trips" and "arr = buckets ended_at trips"
    and "list_all (\<lambda>t. (\<exists>i<1440. minutesSinceMidnight (started_at t) = Some i) \<and>
                       (\<exists>i<1440. minutesSinceMidnight (ended_at t) = Some i)) trips"
  using bucket_rows_Inr [OF assms [unfolded bucket_trips_def]]
  by (simp_all add: empty_table_def buckets_def)

lemma bucket_trips_valid:
  assumes "list_all (\<lambda>t. valid_date (started_at t) \<and> valid_date (ended_at t)) trips"
  shows "bucket_trips trips = Inr (buckets started_at trips, buckets ended_at trips)"
proof -
  obtain dep arr where r: "bucket_trips trips = Inr (dep, arr)"
    using bucket_rows_total [OF assms, of empty_table empty_table]
    by (auto simp: bucket_trips_def empty_table_def)
  then show ?thesis using bucket_trips_Inr(1,2) [OF r] by simp
qed

lemma length_buckets: "length (buckets stamp trips) = 1440"
  by (simp add: buckets_def)

lemma nth_buckets:
  "i < 1440 \<Longrightarrow> buckets stamp trips ! i = filter (\<lambda>t. minutesSinceMidnight (stamp t) = Some i) trips"
  by (simp add: buckets_def)

text \<open>Concatenating the groups of distinct keys keeps every element with such a key once.\<close>

lemma mset_concat_groups:
  assumes "distinct ks"
  shows "mset (concat (map (\<lambda>i. filter (\<lambda>t. k t = Some i) ts) ks))
       = mset (filter (\<lambda>t. case k t of None \<Rightarrow> False | Some i \<Rightarrow> i \<in> set ks) ts)"
  using assms
proof (induction ks)
  case Nil
  then show ?case by (simp split: option.split)
next
  case (Cons a ks)
  have "mset (filter (\<lambda>t. case k t of None \<Rightarrow> False | Some i \<Rightarrow> i \<in> set (a # ks)) ts)
      = mset (filter (\<lambda>t. k t = Some a) ts)
        + mset (filter (\<lambda>t. case k t of None \<Rightarrow> False | Some i \<Rightarrow> i \<in> set ks) ts)"
    using Cons.prems
    by (intro multiset_eqI) (auto split: option.splits)
  with Cons show ?case by simp
qed

lemma length_filter_mset_cong:
  "mset xs = mset ys \<Longrightarrow> length (filter P xs) = length (filter P ys)"
  by (metis mset_filter size_mset)

lemma mset_concat_buckets:
  assumes "list_all (\<lambda>t. \<exists>i<1440. minutesSinceMidnight (stamp t) = Some i) trips"
  shows "mset (concat (buckets stamp trips)) = mset trips"
proof -
  have "filter (\<lambda>t. case minutesSinceMidnight (stamp t) of None \<Rightarrow> False
                     | Some i \<Rightarrow> i \<in> set [0..<1440]) trips = trips"
    using assms by (auto simp: list_all_iff intro!: filter_True)
  moreover have "mset (concat (buckets stamp trips))
      = mset (filter (\<lambda>t. case minutesSinceMidnight (stamp t) of None \<Rightarrow> False
                     | Some i \<Rightarrow> i \<in> set [0..<1440]) trips)"
    unfolding buckets_def by (rule mset_concat_groups) simp
  ultimately show ?thesis by simp
qed

lemma sum_length_concat: "sum_list (map length xss) = length (concat xss)"
  by (simp add: length_concat)

lemma filterByMinute_sentinel: "filterByMinute table (- 1) = concat table"
  by (simp add: filterByMinute_def)

text \<open>
  Claim C4. When every timestamp is a valid date, the row conversion succeeds on every
  row, and the two tables it leaves are the buckets in closed form: bucket \<open>i\<close> of the
  departures table holds exactly the trips with \<open>minutesSinceMidnight(started_at) = i\<close>,
  bucket \<open>i\<close> of the arrivals table those with \<open>minutesSinceMidnight(ended_at) = i\<close>. The
  bucket lengths of each table sum to the number of trips, and the buckets of each table
  together hold every trip exactly once.
\<close>

theorem bucket_completeness:
  assumes "list_all (\<lambda>t. valid_date (started_at t) \<and> valid_date (ended_at t)) trips"
  shows "bucket_trips trips = Inr (buckets started_at trips, buckets ended_at trips) \<and>
         sum_list (map length (buckets started_at trips)) = length trips \<and>
         sum_list (map length (buckets ended_at trips)) = length trips \<and>
         mset (concat (buckets started_at trips)) = mset trips \<and>
         mset (concat (buckets ended_at trips)) = mset trips"
proof -
  have ok: "bucket_trips trips = Inr (buckets started_at trips, buckets ended_at trips)"
    using assms by (rule bucket_trips_valid)
  note r = bucket_trips_Inr(3) [OF ok]
  have s: "mset (concat (buckets started_at trips)) = mset trips"
    using r by (intro mset_concat_buckets) (simp add: list_all_iff)
  have e: "mset (concat (buckets ended_at trips)) = mset trips"
    using r by (intro mset_concat_buckets) (simp add: list_all_iff)
  have "length (concat (buckets started_at trips)) = length trips"
    using s by (metis size_mset)
  moreover have "length (concat (buckets ended_at trips)) = length trips"
    using e by (metis size_mset)
  ultimately show ?thesis using ok s e by (simp add: sum_length_concat)
qed

theorem bucket_completeness_witness:
  "bucket_trips spec_trips = Inr (buckets started_at spec_trips, buckets ended_at spec_trips) \<and>
   sum_list (map length (buckets started_at spec_trips)) = 2 \<and>
   sum_list (map length (buckets ended_at spec_trips)) = 2 \<and>
   buckets started_at spec_trips ! 485 = [trip_at ''A'' ''B'' 485 500] \<and>
   buckets started_at spec_trips ! 490 = [trip_at ''B'' ''A'' 490 505] \<and>
   buckets ended_at spec_trips ! 500 = [trip_at ''A'' ''B'' 485 500] \<and>
   buckets ended_at spec_trips ! 505 = [trip_at ''B'' ''A'' 490 505]"
proof -
  have v: "list_all (\<lambda>t. valid_date (started_at t) \<and> valid_date (ended_at t)) spec_trips"
    by (simp add: spec_trips_def trip_at_def)
  have n: "length spec_trips = 2" by (simp add: spec_trips_def)
  show ?thesis
    using bucket_completeness [OF v] unfolding n
    by (simp add: nth_buckets) (simp add: spec_trips_def trip_at_def minutesSinceMidnight_def)
qed


text \<open>
  Claim C2. The query with the sentinel \<open>-1\<close> is the concatenation of all buckets; on the
  tables bucketing built from a trip list it is, as a multiset, that trip list, for
  departures and arrivals alike (the unnamed variant returns the trip list itself). On
  the table of no trips it returns the empty sequence.
\<close>

theorem unfiltered_query:
  assumes "bucket_trips trips = Inr (dep, arr)"
  shows "filterByMinute dep (- 1) = concat dep \<and>
         filterByMinute arr (- 1) = concat arr \<and>
         mset (filterByMinute dep (- 1)) = mset trips \<and>
         mset (filterByMinute arr (- 1)) = mset trips \<and>
         filterTripsByTime trips (- 1) = trips \<and>
         bucket_trips [] = Inr (empty_table, empty_table) \<and>
         filterByMinute empty_table (- 1) = []"
proof -
  note r = bucket_trips_Inr [OF assms]
  have "mset (concat dep) = mset trips"
    unfolding r(1) using r(3) by (intro mset_concat_buckets) (simp add: list_all_iff)
  moreover have "mset (concat arr) = mset trips"
    unfolding r(2) using r(3) by (intro mset_concat_buckets) (simp add: list_all_iff)
  moreover have "filterByMinute empty_table (- 1) = []"
    by (simp add: filterByMinute_sentinel empty_table_def)
  ultimately show ?thesis
    by (simp add: filterByMinute_sentinel filterTripsByTime_def bucket_trips_def)
qed

theorem unfiltered_query_witness:
  "mset (filterByMinute (buckets started_at spec_trips) (- 1)) = mset spec_trips \<and>
   mset (filterByMinute (buckets ended_at spec_trips) (- 1)) = mset spec_trips \<and>
   filterByMinute empty_table (- 1) = []"
proof -
  have "list_all (\<lambda>t. valid_date (started_at t) \<and> valid_date (ended_at t)) spec_trips"
    by (simp add: spec_trips_def trip_at_def)
  then have "bucket_trips spec_trips = Inr (buckets started_at spec_trips, buckets ended_at spec_trips)"
    by (rule bucket_trips_valid)
  from unfiltered_query [OF this] show ?thesis by blast
qed

section \<open>Aggregation: grouping, the store, counting over a window\<close>

lemma d3_group_fold:
  "fold (\<lambda>x groups. groups(key x \<mapsto> (case groups (key x) of None \<Rightarrow> [x] | Some g \<Rightarrow> g @ [x])))
      xs groups k
   = (if filter (\<lambda>x. key x = k) xs = [] then groups k
      else Some ((case groups k of None \<Rightarrow> [] | Some g \<Rightarrow> g) @ filter (\<lambda>x. key x = k) xs))"
  by (induction xs arbitrary: groups) (auto split: option.splits)

lemma d3_group_filter:
  "d3_group key xs k =
     (if filter (\<lambda>x. key x = k) xs = [] then None else Some (filter (\<lambda>x. key x = k) xs))"
  by (simp add: d3_group_def d3_group_fold)

lemma rollup_count:
  "get_or_zero (d3_rollup length key xs) k = length (filter (\<lambda>x. key x = k) xs)"
  by (simp add: get_or_zero_def d3_rollup_def d3_group_filter)

lemma assign_traffic_fields:
  "assign_traffic (d3_rollup length end_station_id A) (d3_rollup length start_station_id D) s
   = s\<lparr>arrivals := Some (length (filter (\<lambda>t. end_station_id t = short_name s) A)),
        departures := Some (length (filter (\<lambda>t. start_station_id t = short_name s) D)),
        totalTraffic := Some (length (filter (\<lambda>t. end_station_id t = short_name s) A)
                              + length (filter (\<lambda>t. start_station_id t = short_name s) D))\<rparr>"
  by (simp add: assign_traffic_def Let_def rollup_count)

lemma copy_with_traffic_fields:
  "copy_with_traffic (d3_rollup length start_station_id D) (d3_rollup length end_station_id A) s
   = s\<lparr>departures := Some (length (filter (\<lambda>t. start_station_id t = short_name s) D)),
        arrivals := Some (length (filter (\<lambda>t. end_station_id t = short_name s) A)),
        totalTraffic := Some (length (filter (\<lambda>t. start_station_id t = short_name s) D)
                              + length (filter (\<lambda>t. end_station_id t = short_name s) A))\<rparr>"
  by (simp add: copy_with_traffic_def Let_def rollup_count)

lemma aggregated_assign:
  "aggregated D A s
     (assign_traffic (d3_rollup length end_station_id A) (d3_rollup length start_station_id D) s)"
  by (simp add: aggregated_def assign_traffic_fields)

lemma aggregated_copy:
  "aggregated D A s
     (copy_with_traffic (d3_rollup length start_station_id D) (d3_rollup length end_station_id A) s)"
  by (simp add: aggregated_def copy_with_traffic_fields)

lemma assign_traffic_idem:
  "assign_traffic am dm (assign_traffic am dm s) = assign_traffic am dm s"
  by (simp add: assign_traffic_def Let_def)

lemma length_map_in_place: "length (map_in_place f rs h) = length h"
  by (induction rs arbitrary: h) simp_all

lemma nth_map_in_place:
  assumes "\<And>s. f (f s) = f s" and "r < length h"
  shows "map_in_place f rs h ! r = (if r \<in> set rs then f (h ! r) else h ! r)"
  using assms(2)
proof (induction rs arbitrary: h)
  case Nil
  then show ?case by simp
next
  case (Cons a rs)
  let ?h1 = "h[a := f (h ! a)]"
  have "map_in_place f (a # rs) h ! r = (if r \<in> set rs then f (?h1 ! r) else ?h1 ! r)"
    using Cons.prems by (simp add: Cons.IH)
  also have "\<dots> = (if r \<in> set (a # rs) then f (h ! r) else h ! r)"
    using Cons.prems by (cases "r = a") (simp_all add: assms(1))
  finally show ?case .
qed

lemma map_fresh_append:
  assumes "wf_refs h rs"
  shows "map_fresh f rs h = (h @ map (\<lambda>r. f (h ! r)) rs, [length h..<length h + length rs])"
  using assms
proof (induction rs arbitrary: h)
  case Nil
  then show ?case by simp
next
  case (Cons a rs)
  let ?h1 = "h @ [f (h ! a)]"
  from Cons.prems have wf: "wf_refs ?h1 rs"
    by (auto simp: wf_refs_def list_all_iff)
  have same: "map (\<lambda>r. f (?h1 ! r)) rs = map (\<lambda>r. f (h ! r)) rs"
    using Cons.prems by (auto simp: wf_refs_def list_all_iff nth_append)
  have "[length h..<length h + length (a # rs)] = length h # [Suc (length h)..<length h + length (a # rs)]"
    by (rule upt_conv_Cons) simp
  then show ?case using Cons.IH [OF wf] same by simp
qed

lemma deref_in_place:
  assumes "\<And>s. f (f s) = f s" and "wf_refs h rs"
  shows "deref (map_in_place f rs h) rs = map f (deref h rs)"
proof -
  have "map_in_place f rs h ! r = f (h ! r)" if "r \<in> set rs" for r
    using that assms(2) nth_map_in_place [of f r h rs] assms(1)
    by (simp add: wf_refs_def list_all_iff)
  then show ?thesis by (simp add: deref_def)
qed

lemma deref_fresh:
  "deref (h @ xs) [length h..<length h + length xs] = xs"
  by (auto simp: deref_def nth_append intro!: nth_equalityI)

lemma compute_aggregated:
  assumes "wf_refs h stations"
  shows "list_all2 (aggregated (filterByMinute dep f) (filterByMinute arr f)) (deref h stations)
           (deref (fst (computeStationTraffic dep arr stations f h))
                  (snd (computeStationTraffic dep arr stations f h)))"
  using assms
  by (simp add: computeStationTraffic_def Let_def deref_in_place assign_traffic_idem
      list_all2_map2 aggregated_assign list_all2_same)

lemma compute_scan_aggregated:
  assumes "wf_refs h stations"
  shows "list_all2 (aggregated (filterTripsByTime trips f) (filterTripsByTime trips f))
           (deref h stations)
           (deref (fst (computeStationTraffic_scan stations trips f h))
                  (snd (computeStationTraffic_scan stations trips f h)))"
proof -
  let ?A = "filterTripsByTime trips f"
  let ?g = "copy_with_traffic (d3_rollup length start_station_id ?A) (d3_rollup length end_station_id ?A)"
  have "computeStationTraffic_scan stations trips f h
      = (h @ map (\<lambda>r. ?g (h ! r)) stations, [length h..<length h + length stations])"
    using assms by (simp add: computeStationTraffic_scan_def Let_def map_fresh_append)
  moreover have "deref (h @ map (\<lambda>r. ?g (h ! r)) stations) [length h..<length h + length stations]
      = map ?g (deref h stations)"
    using deref_fresh [of h "map (\<lambda>r. ?g (h ! r)) stations"] by (simp add: deref_def)
  ultimately show ?thesis
    by (simp add: list_all2_map2 aggregated_copy list_all2_same)
qed

lemma map_in_place_other:
  "r \<notin> set rs \<Longrightarrow> map_in_place f rs h ! r = h ! r"
  by (induction rs arbitrary: h) simp_all

lemma mset_query_window:
  assumes "0 \<le> m" and "m < 1440"
  shows "mset (filterByMinute (buckets stamp trips) m)
       = mset (filter (\<lambda>t. in_window m (minutesSinceMidnight (stamp t))) trips)"
proof -
  have "map ((!) (buckets stamp trips)) (spec_window m)
      = map (\<lambda>i. filter (\<lambda>t. minutesSinceMidnight (stamp t) = Some i) trips) (spec_window m)"
    (is "?l = ?r")
  proof (rule map_cong [OF refl])
    fix i assume "i \<in> set (spec_window m)"
    then have "i < 1440" using spec_window_bound [OF assms] by (simp add: list_all_iff)
    then show "buckets stamp trips ! i
        = filter (\<lambda>t. minutesSinceMidnight (stamp t) = Some i) trips"
      by (rule nth_buckets)
  qed
  then have "filterByMinute (buckets stamp trips) m = concat ?r"
    unfolding filterByMinute_window [OF length_buckets assms] by (rule arg_cong)
  then show ?thesis
    unfolding in_window_def
    using mset_concat_groups [OF spec_window_distinct [OF assms]] by simp
qed

lemma count_query:
  assumes "0 \<le> m" and "m < 1440"
  shows "length (filter P (filterByMinute (buckets stamp trips) m))
       = length (filter (\<lambda>t. in_window m (minutesSinceMidnight (stamp t)) \<and> P t) trips)"
proof -
  have "length (filter P (filterByMinute (buckets stamp trips) m))
      = length (filter P (filter (\<lambda>t. in_window m (minutesSinceMidnight (stamp t))) trips))"
    by (rule length_filter_mset_cong) (rule mset_query_window [OF assms])
  then show ?thesis by (simp add: conj_commute)
qed

lemma count_query_sentinel:
  assumes "list_all (\<lambda>t. \<exists>i<1440. minutesSinceMidnight (stamp t) = Some i) trips"
  shows "length (filter P (filterByMinute (buckets stamp trips) (- 1))) = length (filter P trips)"
  unfolding filterByMinute_sentinel
  by (rule length_filter_mset_cong) (rule mset_concat_buckets [OF assms])

lemma in_window_Some:
  assumes "0 \<le> m" and "m < 1440"
  shows "in_window m (Some k) \<longleftrightarrow>
     (if m < 60 then nat (m + 1380) \<le> k \<and> k < 1440 \<or> k < nat (m + 60)
      else if m < 1380 then nat (m - 60) \<le> k \<and> k < nat (m + 60)
      else nat (m - 60) \<le> k \<and> k < 1440 \<or> k < nat (m - 1380))"
  using assms by (auto simp: in_window_def spec_window_cases)

lemma minutes_trip_at:
  "s < 1440 \<Longrightarrow> minutesSinceMidnight (started_at (trip_at a b s e)) = Some s"
  "e < 1440 \<Longrightarrow> minutesSinceMidnight (ended_at (trip_at a b s e)) = Some e"
  by (simp_all add: trip_at_def minutesSinceMidnight_def)

lemma valid_trip_at:
  "s < 1440 \<Longrightarrow> valid_date (started_at (trip_at a b s e))"
  "e < 1440 \<Longrightarrow> valid_date (ended_at (trip_at a b s e))"
  by (simp_all add: trip_at_def)

lemma stations_trip_at:
  "start_station_id (trip_at a b s e) = a" "end_station_id (trip_at a b s e) = b"
  by (simp_all add: trip_at_def)

text \<open>The aggregation of map.js on bucketed tables, by counting over the trip list.\<close>

lemma compute_bucketed:
  assumes "0 \<le> m" and "m < 1440"
  shows "computeStationTraffic (buckets started_at trips) (buckets ended_at trips) stations m h
     = (map_in_place (\<lambda>s. s\<lparr>
          arrivals := Some (length (filter (\<lambda>t. in_window m (minutesSinceMidnight (ended_at t)) \<and>
                                               end_station_id t = short_name s) trips)),
          departures := Some (length (filter (\<lambda>t. in_window m (minutesSinceMidnight (started_at t)) \<and>
                                               start_station_id t = short_name s) trips)),
          totalTraffic := Some (
             length (filter (\<lambda>t. in_window m (minutesSinceMidnight (ended_at t)) \<and>
                                  end_station_id t = short_name s) trips)
           + length (filter (\<lambda>t. in_window m (minutesSinceMidnight (started_at t)) \<and>
                                  start_station_id t = short_name s) trips))\<rparr>) stations h,
        stations)"
proof -
  have "assign_traffic
          (d3_rollup length end_station_id (filterByMinute (buckets ended_at trips) m))
          (d3_rollup length start_station_id (filterByMinute (buckets started_at trips) m))
      = (\<lambda>s. s\<lparr>
          arrivals := Some (length (filter (\<lambda>t. in_window m (minutesSinceMidnight (ended_at t)) \<and>
                                               end_station_id t = short_name s) trips)),
          departures := Some (length (filter (\<lambda>t. in_window m (minutesSinceMidnight (started_at t)) \<and>
                                               start_station_id t = short_name s) trips)),
          totalTraffic := Some (
             length (filter (\<lambda>t. in_window m (minutesSinceMidnight (ended_at t)) \<and>
                                  end_station_id t = short_name s) trips)
           + length (filter (\<lambda>t. in_window m (minutesSinceMidnight (started_at t)) \<and>
                                  start_station_id t = short_name s) trips))\<rparr>)"
    by (rule ext) (simp add: assign_traffic_fields count_query [OF assms])
  then show ?thesis by (simp add: computeStationTraffic_def Let_def)
qed

lemma compute_bucketed_sentinel:
  assumes "list_all (\<lambda>t. (\<exists>i<1440. minutesSinceMidnight (started_at t) = Some i) \<and>
                         (\<exists>i<1440. minutesSinceMidnight (ended_at t) = Some i)) trips"
  shows "computeStationTraffic (buckets started_at trips) (buckets ended_at trips) stations (- 1) h
     = (map_in_place (\<lambda>s. s\<lparr>
          arrivals := Some (length (filter (\<lambda>t. end_station_id t = short_name s) trips)),
          departures := Some (length (filter (\<lambda>t. start_station_id t = short_name s) trips)),
          totalTraffic := Some (
             length (filter (\<lambda>t. end_station_id t = short_name s) trips)
           + length (filter (\<lambda>t. start_station_id t = short_name s) trips))\<rparr>) stations h,
        stations)"
proof -
  have s: "list_all (\<lambda>t. \<exists>i<1440. minutesSinceMidnight (started_at t) = Some i) trips"
    and e: "list_all (\<lambda>t. \<exists>i<1440. minutesSinceMidnight (ended_at t) = Some i) trips"
    using assms by (simp_all add: list_all_iff)
  have "assign_traffic
          (d3_rollup length end_station_id (filterByMinute (buckets ended_at trips) (- 1)))
          (d3_rollup length start_station_id (filterByMinute (buckets started_at trips) (- 1)))
      = (\<lambda>s. s\<lparr>
          arrivals := Some (length (filter (\<lambda>t. end_station_id t = short_name s) trips)),
          departures := Some (length (filter (\<lambda>t. start_station_id t = short_name s) trips)),
          totalTraffic := Some (
             length (filter (\<lambda>t. end_station_id t = short_name s) trips)
           + length (filter (\<lambda>t. start_station_id t = short_name s) trips))\<rparr>)"
    by (rule ext)
      (simp add: assign_traffic_fields count_query_sentinel [OF s] count_query_sentinel [OF e])
  then show ?thesis by (simp add: computeStationTraffic_def Let_def)
qed

lemma spec_trips_valid:
  "list_all (\<lambda>t. valid_date (started_at t) \<and> valid_date (ended_at t)) spec_trips"
  by (simp add: spec_trips_def valid_trip_at)

lemma one_trip_valid:
  "list_all (\<lambda>t. valid_date (started_at t) \<and> valid_date (ended_at t)) one_trip"
  by (simp add: one_trip_def valid_trip_at)

section \<open>The station traffic aggregation\<close>

text \<open>
  Claim C3. For every array of stations in the store and every filter value, both
  variants give each station its departures as the number of selected departure trips
  whose \<open>start_station_id\<close> is the station's \<open>short_name\<close>, its arrivals likewise over
  \<open>end_station_id\<close>, and \<open>totalTraffic = arrivals + departures\<close>. In map.js the selected
  trips are the two windowed queries, in the unnamed variant the scanned active trips. A
  station that no selected trip names gets three zeros.
\<close>

theorem station_aggregation:
  assumes "wf_refs h stations"
  shows "list_all2 (aggregated (filterByMinute dep f) (filterByMinute arr f)) (deref h stations)
           (deref (fst (computeStationTraffic dep arr stations f h))
                  (snd (computeStationTraffic dep arr stations f h))) \<and>
         list_all2 (aggregated (filterTripsByTime trips f) (filterTripsByTime trips f))
           (deref h stations)
           (deref (fst (computeStationTraffic_scan stations trips f h))
                  (snd (computeStationTraffic_scan stations trips f h))) \<and>
         (aggregated D A s s' \<and> filter (\<lambda>t. start_station_id t = short_name s) D = [] \<and>
            filter (\<lambda>t. end_station_id t = short_name s) A = [] \<longrightarrow>
          arrivals s' = Some 0 \<and> departures s' = Some 0 \<and> totalTraffic s' = Some 0)"
  using compute_aggregated [OF assms] compute_scan_aggregated [OF assms]
  by (simp add: aggregated_def Let_def)

theorem station_aggregation_witness:
  "list_all2
     (aggregated (filterByMinute (buckets started_at spec_trips) (- 1))
                 (filterByMinute (buckets ended_at spec_trips) (- 1)))
     (deref ab_heap [0, 1, 2])
     (deref (fst (computeStationTraffic (buckets started_at spec_trips)
                    (buckets ended_at spec_trips) [0, 1, 2] (- 1) ab_heap))
            (snd (computeStationTraffic (buckets started_at spec_trips)
                    (buckets ended_at spec_trips) [0, 1, 2] (- 1) ab_heap))) \<and>
   deref (fst (computeStationTraffic (buckets started_at spec_trips)
                 (buckets ended_at spec_trips) [0, 1, 2] (- 1) ab_heap))
         (snd (computeStationTraffic (buckets started_at spec_trips)
                 (buckets ended_at spec_trips) [0, 1, 2] (- 1) ab_heap))
     = [(station_json ''A'' 0 0)\<lparr>arrivals := Some 1, departures := Some 1, totalTraffic := Some 2\<rparr>,
        (station_json ''B'' 1 1)\<lparr>arrivals := Some 1, departures := Some 1, totalTraffic := Some 2\<rparr>,
        (station_json ''C'' 2 2)\<lparr>arrivals := Some 0, departures := Some 0, totalTraffic := Some 0\<rparr>] \<and>
   deref (fst (computeStationTraffic_scan [0, 1, 2] spec_trips 600 ab_heap))
         (snd (computeStationTraffic_scan [0, 1, 2] spec_trips 600 ab_heap))
     = [(station_json ''A'' 0 0)\<lparr>arrivals := Some 0, departures := Some 0, totalTraffic := Some 0\<rparr>,
        (station_json ''B'' 1 1)\<lparr>arrivals := Some 0, departures := Some 0, totalTraffic := Some 0\<rparr>,
        (station_json ''C'' 2 2)\<lparr>arrivals := Some 0, departures := Some 0, totalTraffic := Some 0\<rparr>]"
proof -
  have wf: "wf_refs ab_heap [0, 1, 2]" by (simp add: wf_refs_def ab_heap_def)
  have ok: "bucket_trips spec_trips = Inr (buckets started_at spec_trips, buckets ended_at spec_trips)"
    using spec_trips_valid by (rule bucket_trips_valid)
  note th = station_aggregation [OF wf, of "buckets started_at spec_trips" "- 1"
      "buckets ended_at spec_trips"]
  have m: "computeStationTraffic (buckets started_at spec_trips) (buckets ended_at spec_trips)
             [0, 1, 2] (- 1) ab_heap
     = ([(station_json ''A'' 0 0)\<lparr>arrivals := Some 1, departures := Some 1, totalTraffic := Some 2\<rparr>,
         (station_json ''B'' 1 1)\<lparr>arrivals := Some 1, departures := Some 1, totalTraffic := Some 2\<rparr>,
         (station_json ''C'' 2 2)\<lparr>arrivals := Some 0, departures := Some 0, totalTraffic := Some 0\<rparr>],
        [0, 1, 2])"
    by (simp add: compute_bucketed_sentinel [OF bucket_trips_Inr(3) [OF ok]])
       (simp add: spec_trips_def ab_heap_def stations_trip_at station_json_def)
  have s: "computeStationTraffic_scan [0, 1, 2] spec_trips 600 ab_heap
     = (ab_heap @
        [(station_json ''A'' 0 0)\<lparr>arrivals := Some 0, departures := Some 0, totalTraffic := Some 0\<rparr>,
         (station_json ''B'' 1 1)\<lparr>arrivals := Some 0, departures := Some 0, totalTraffic := Some 0\<rparr>,
         (station_json ''C'' 2 2)\<lparr>arrivals := Some 0, departures := Some 0, totalTraffic := Some 0\<rparr>],
        [3, 4, 5])"
    by (simp add: computeStationTraffic_scan_def Let_def copy_with_traffic_fields spec_trips_def
        ab_heap_def filterTripsByTime_def in_range_def minutes_trip_at stations_trip_at
        station_json_def)
  from th have "list_all2
     (aggregated (filterByMinute (buckets started_at spec_trips) (- 1))
                 (filterByMinute (buckets ended_at spec_trips) (- 1)))
     (deref ab_heap [0, 1, 2])
     (deref (fst (computeStationTraffic (buckets started_at spec_trips)
                    (buckets ended_at spec_trips) [0, 1, 2] (- 1) ab_heap))
            (snd (computeStationTraffic (buckets started_at spec_trips)
                    (buckets ended_at spec_trips) [0, 1, 2] (- 1) ab_heap)))"
    by (rule conjunct1)
  moreover have "deref (fst (computeStationTraffic (buckets started_at spec_trips)
                 (buckets ended_at spec_trips) [0, 1, 2] (- 1) ab_heap))
         (snd (computeStationTraffic (buckets started_at spec_trips)
                 (buckets ended_at spec_trips) [0, 1, 2] (- 1) ab_heap))
     = [(station_json ''A'' 0 0)\<lparr>arrivals := Some 1, departures := Some 1, totalTraffic := Some 2\<rparr>,
        (station_json ''B'' 1 1)\<lparr>arrivals := Some 1, departures := Some 1, totalTraffic := Some 2\<rparr>,
        (station_json ''C'' 2 2)\<lparr>arrivals := Some 0, departures := Some 0, totalTraffic := Some 0\<rparr>]"
    unfolding m by (simp add: deref_def)
  moreover have "deref (fst (computeStationTraffic_scan [0, 1, 2] spec_trips 600 ab_heap))
         (snd (computeStationTraffic_scan [0, 1, 2] spec_trips 600 ab_heap))
     = [(station_json ''A'' 0 0)\<lparr>arrivals := Some 0, departures := Some 0, totalTraffic := Some 0\<rparr>,
        (station_json ''B'' 1 1)\<lparr>arrivals := Some 0, departures := Some 0, totalTraffic := Some 0\<rparr>,
        (station_json ''C'' 2 2)\<lparr>arrivals := Some 0, departures := Some 0, totalTraffic := Some 0\<rparr>]"
    unfolding s by (simp add: deref_def ab_heap_def)
  ultimately show ?thesis by (intro conjI)
qed

text \<open>
  Claim C7, as amended. The aggregation of the unnamed variant leaves every object of the
  store as it was and returns freshly allocated copies. The aggregation of map.js returns
  the very addresses it was given and overwrites \<open>arrivals\<close>, \<open>departures\<close> and
  \<open>totalTraffic\<close> of those objects in place (their \<open>short_name\<close>, \<open>lon\<close> and \<open>lat\<close> stay);
  objects outside the array are untouched.
\<close>

theorem aggregation_aliasing:
  assumes "wf_refs h stations"
  shows "snd (computeStationTraffic dep arr stations f h) = stations \<and>
         length (fst (computeStationTraffic dep arr stations f h)) = length h \<and>
         list_all2 (aggregated (filterByMinute dep f) (filterByMinute arr f)) (deref h stations)
           (deref (fst (computeStationTraffic dep arr stations f h)) stations) \<and>
         (r \<notin> set stations \<longrightarrow> fst (computeStationTraffic dep arr stations f h) ! r = h ! r) \<and>
         take (length h) (fst (computeStationTraffic_scan stations trips f h)) = h \<and>
         deref (fst (computeStationTraffic_scan stations trips f h)) stations = deref h stations \<and>
         snd (computeStationTraffic_scan stations trips f h)
           = [length h..<length h + length stations] \<and>
         length (fst (computeStationTraffic_scan stations trips f h)) = length h + length stations"
proof -
  have m: "snd (computeStationTraffic dep arr stations f h) = stations"
    by (simp add: computeStationTraffic_def Let_def)
  have a: "list_all2 (aggregated (filterByMinute dep f) (filterByMinute arr f)) (deref h stations)
           (deref (fst (computeStationTraffic dep arr stations f h)) stations)"
    using compute_aggregated [OF assms, of dep f arr] unfolding m .
  let ?A = "filterTripsByTime trips f"
  let ?g = "copy_with_traffic (d3_rollup length start_station_id ?A) (d3_rollup length end_station_id ?A)"
  have s: "computeStationTraffic_scan stations trips f h
      = (h @ map (\<lambda>r. ?g (h ! r)) stations, [length h..<length h + length stations])"
    using assms by (simp add: computeStationTraffic_scan_def Let_def map_fresh_append)
  have d: "deref (h @ map (\<lambda>r. ?g (h ! r)) stations) stations = deref h stations"
    using assms by (auto simp: deref_def wf_refs_def list_all_iff nth_append)
  show ?thesis
    unfolding s using m a d
    by (simp add: computeStationTraffic_def Let_def length_map_in_place map_in_place_other)
qed

theorem aggregation_aliasing_witness:
  "snd (computeStationTraffic empty_table empty_table [0] (- 1) a_heap) = [0] \<and>
   fst (computeStationTraffic empty_table empty_table [0] (- 1) a_heap)
     = [(station_json ''A'' 0 0)\<lparr>arrivals := Some 0, departures := Some 0, totalTraffic := Some 0\<rparr>] \<and>
   take (length a_heap) (fst (computeStationTraffic_scan [0] one_trip (- 1) a_heap)) = a_heap \<and>
   deref (fst (computeStationTraffic_scan [0] one_trip (- 1) a_heap)) [0] = deref a_heap [0] \<and>
   snd (computeStationTraffic_scan [0] one_trip (- 1) a_heap) = [1]"
proof -
  have wf: "wf_refs a_heap [0]" by (simp add: wf_refs_def a_heap_def)
  note th = aggregation_aliasing [OF wf, of empty_table empty_table "- 1" 1 one_trip]
  have e: "fst (computeStationTraffic empty_table empty_table [0] (- 1) a_heap)
     = [(station_json ''A'' 0 0)\<lparr>arrivals := Some 0, departures := Some 0, totalTraffic := Some 0\<rparr>]"
    by (simp add: computeStationTraffic_def Let_def filterByMinute_sentinel empty_table_def
        assign_traffic_fields a_heap_def)
  have l: "[length a_heap..<length a_heap + length [0::nat]] = [1]"
    by (simp add: a_heap_def)
  from th e show ?thesis unfolding l by simp
qed

text \<open>
  The claim as stated fails on map.js: after one aggregation the object the input array
  points to has changed, and the returned array holds the same address.
\<close>

theorem in_place_counterexample:
  "deref (fst (computeStationTraffic empty_table empty_table [0] (- 1) a_heap)) [0]
     \<noteq> deref a_heap [0] \<and>
   snd (computeStationTraffic empty_table empty_table [0] (- 1) a_heap) = [0]"
  by (simp add: computeStationTraffic_def Let_def filterByMinute_sentinel empty_table_def
      assign_traffic_fields a_heap_def deref_def station_json_def)

section \<open>The two variants compared\<close>

text \<open>
  Claim C10, as amended. With the sentinel \<open>-1\<close> the two variants give every station the
  same arrivals, departures and totalTraffic: the tables of map.js are the buckets of the
  trip list the unnamed variant scans.
\<close>

theorem sentinel_equivalence:
  assumes "bucket_trips trips = Inr (dep, arr)" and "wf_refs h stations"
  shows "list_all2 same_traffic
           (deref (fst (computeStationTraffic dep arr stations (- 1) h))
                  (snd (computeStationTraffic dep arr stations (- 1) h)))
           (deref (fst (computeStationTraffic_scan stations trips (- 1) h))
                  (snd (computeStationTraffic_scan stations trips (- 1) h)))"
proof -
  let ?R1 = "deref (fst (computeStationTraffic dep arr stations (- 1) h))
                  (snd (computeStationTraffic dep arr stations (- 1) h))"
  let ?R2 = "deref (fst (computeStationTraffic_scan stations trips (- 1) h))
                  (snd (computeStationTraffic_scan stations trips (- 1) h))"
  note r = bucket_trips_Inr [OF assms(1)]
  have md: "mset (filterByMinute dep (- 1)) = mset trips"
    unfolding r(1) filterByMinute_sentinel
    using r(3) by (intro mset_concat_buckets) (simp add: list_all_iff)
  have ma: "mset (filterByMinute arr (- 1)) = mset trips"
    unfolding r(2) filterByMinute_sentinel
    using r(3) by (intro mset_concat_buckets) (simp add: list_all_iff)
  have a1: "list_all2 (aggregated (filterByMinute dep (- 1)) (filterByMinute arr (- 1)))
              (deref h stations) ?R1"
    using assms(2) by (rule compute_aggregated)
  have a2: "list_all2 (aggregated trips trips) (deref h stations) ?R2"
    using compute_scan_aggregated [OF assms(2), of trips "- 1"]
    by (simp add: filterTripsByTime_def)
  have agree: "same_traffic x y"
    if "aggregated (filterByMinute dep (- 1)) (filterByMinute arr (- 1)) s x"
      and "aggregated trips trips s y" for s x y
    using that length_filter_mset_cong [OF md] length_filter_mset_cong [OF ma]
    by (simp add: aggregated_def same_traffic_def Let_def)
  show ?thesis
  proof (rule list_all2_all_nthI)
    show "length ?R1 = length ?R2"
      using a1 a2 by (simp add: list_all2_lengthD [symmetric])
  next
    fix i assume "i < length ?R1"
    then have "i < length (deref h stations)"
      using a1 by (simp add: list_all2_lengthD)
    then show "same_traffic (?R1 ! i) (?R2 ! i)"
      using list_all2_nthD [OF a1] list_all2_nthD [OF a2] agree by blast
  qed
qed

theorem sentinel_equivalence_witness:
  "list_all2 same_traffic
     (deref (fst (computeStationTraffic (buckets started_at spec_trips)
                    (buckets ended_at spec_trips) [0, 1, 2] (- 1) ab_heap))
            (snd (computeStationTraffic (buckets started_at spec_trips)
                    (buckets ended_at spec_trips) [0, 1, 2] (- 1) ab_heap)))
     (deref (fst (computeStationTraffic_scan [0, 1, 2] spec_trips (- 1) ab_heap))
            (snd (computeStationTraffic_scan [0, 1, 2] spec_trips (- 1) ab_heap)))"
proof -
  have wf: "wf_refs ab_heap [0, 1, 2]" by (simp add: wf_refs_def ab_heap_def)
  have ok: "bucket_trips spec_trips = Inr (buckets started_at spec_trips, buckets ended_at spec_trips)"
    using spec_trips_valid by (rule bucket_trips_valid)
  show ?thesis using ok wf by (rule sentinel_equivalence)
qed

text \<open>
  With a minute the variants differ. One trip from A to A starts at minute 100 and ends
  at minute 200; at the filter 100 map.js counts its departure but not its arrival, and
  the unnamed variant, which keeps a trip when either end is near, counts both.
\<close>

theorem variants_differ_counterexample:
  "\<not> list_all2 same_traffic
     (deref (fst (computeStationTraffic (buckets started_at one_trip)
                    (buckets ended_at one_trip) [0] 100 a_heap))
            (snd (computeStationTraffic (buckets started_at one_trip)
                    (buckets ended_at one_trip) [0] 100 a_heap)))
     (deref (fst (computeStationTraffic_scan [0] one_trip 100 a_heap))
            (snd (computeStationTraffic_scan [0] one_trip 100 a_heap)))"
proof -
  have m: "computeStationTraffic (buckets started_at one_trip) (buckets ended_at one_trip) [0] 100 a_heap
     = ([(station_json ''A'' 0 0)\<lparr>arrivals := Some 0, departures := Some 1, totalTraffic := Some 1\<rparr>], [0])"
    by (simp add: compute_bucketed one_trip_def a_heap_def minutes_trip_at in_window_Some
        stations_trip_at station_json_def)
  have s: "computeStationTraffic_scan [0] one_trip 100 a_heap
     = ([station_json ''A'' 0 0,
         (station_json ''A'' 0 0)\<lparr>arrivals := Some 1, departures := Some 1, totalTraffic := Some 2\<rparr>],
        [1])"
    by (simp add: computeStationTraffic_scan_def Let_def copy_with_traffic_fields one_trip_def
        a_heap_def filterTripsByTime_def in_range_def minutes_trip_at stations_trip_at
        station_json_def)
  show ?thesis unfolding m s by (simp add: deref_def same_traffic_def)
qed

section \<open>The scales\<close>

lemma thresholds_thirds: "quantize_thresholds 0 1 2 = [1 / 3, 2 / 3]"
proof -
  have "[0..<2] = [0, Suc 0]" by (simp add: upt_rec)
  then show ?thesis by (simp add: quantize_thresholds_def)
qed

lemma bisect_right_done: "hi \<le> lo \<Longrightarrow> bisect_right a v lo hi = lo"
  by (subst bisect_right.simps) simp

lemma bisect_thirds:
  "bisect_right [1 / 3, 2 / 3] v 0 2 = (if v < 1 / 3 then 0 else if v < 2 / 3 then 1 else 2)"
proof -
  have low: "bisect_right [1 / 3, 2 / 3] v 0 (Suc 0) = (if 1 / 3 \<le> v then Suc 0 else 0)"
    by (subst bisect_right.simps) (simp add: bisect_right_done)
  have top: "bisect_right [1 / 3, 2 / 3] v 0 2 =
      (if 2 / 3 \<le> v then 2 else bisect_right [1 / 3, 2 / 3] v 0 (Suc 0))"
    by (subst bisect_right.simps) (simp add: bisect_right_done)
  show ?thesis unfolding top low by auto
qed

lemma stationFlow_Num: "stationFlow (Num v) = Some (spec_quantize v)"
proof -
  have n: "length [0::real, 1 / 2, 1] - 1 = 2" by simp
  have "stationFlow (Num v) = Some ([0, 1 / 2, 1] ! bisect_right [1 / 3, 2 / 3] v 0 2)"
    unfolding stationFlow_def scaleQuantize_def Let_def n fst_conv snd_conv thresholds_thirds
    by (simp only: jsnum.case)
  then show ?thesis
    by (simp add: bisect_thirds spec_quantize_def)
qed

lemma spec_quantize_levels: "spec_quantize v \<in> {0, 1 / 2, 1}"
  by (simp add: spec_quantize_def)

lemma departure_ratio_defined:
  assumes "departures d = Some x" and "totalTraffic d = Some t"
  shows "departure_ratio d = Num (spec_fraction x t)"
  using assms by (simp add: departure_ratio_def js_div_def spec_fraction_def)

lemma scale_apply_degenerate:
  assumes "sc_domain sc = (Some 0, Some 0)"
  shows "scale_apply sc (Some n) = Some ((fst (sc_range sc) + snd (sc_range sc)) / 2)"
  using assms
  by (simp add: scale_apply_def bimap_def normalize_def interpolateNumber_def transformSqrt_def
      Let_def field_simps)

lemma d3_max_single: "d3_max [Some v] = Some v"
  by (simp add: d3_max_def)

lemma on_load_no_trips:
  "on_load a_heap [0] [] =
     Inr \<lparr>departuresByMinute = empty_table, arrivalsByMinute = empty_table,
          store = [zero_station], stationsData = [0],
          radiusScale = \<lparr>sc_domain = (Some 0, Some 0), sc_range = (0, 25)\<rparr>,
          timeFilter = - 1, shown = [0]\<rparr>"
proof -
  have c: "computeStationTraffic empty_table empty_table [0] (- 1) a_heap = ([zero_station], [0])"
    by (simp add: computeStationTraffic_def Let_def filterByMinute_sentinel empty_table_def
        assign_traffic_fields a_heap_def zero_station_def)
  show ?thesis
    by (simp add: on_load_def bucket_trips_def c Let_def deref_def d3_max_single scaleSqrt_def)
       (simp add: zero_station_def d3_max_single)
qed

lemma on_load_one_trip:
  "on_load a_heap [0] one_trip =
     Inr \<lparr>departuresByMinute = buckets started_at one_trip,
          arrivalsByMinute = buckets ended_at one_trip,
          store = [busy_station], stationsData = [0],
          radiusScale = \<lparr>sc_domain = (Some 0, Some 2), sc_range = (0, 25)\<rparr>,
          timeFilter = - 1, shown = [0]\<rparr>"
proof -
  have ok: "bucket_trips one_trip = Inr (buckets started_at one_trip, buckets ended_at one_trip)"
    using one_trip_valid by (rule bucket_trips_valid)
  have c: "computeStationTraffic (buckets started_at one_trip) (buckets ended_at one_trip) [0] (- 1) a_heap
      = ([busy_station], [0])"
    by (simp add: compute_bucketed_sentinel [OF bucket_trips_Inr(3) [OF ok]])
       (simp add: one_trip_def a_heap_def stations_trip_at station_json_def busy_station_def)
  show ?thesis
    by (simp add: on_load_def ok c Let_def deref_def d3_max_single scaleSqrt_def)
       (simp add: busy_station_def d3_max_single)
qed

lemma update_600_one_trip:
  "updateTimeDisplay 600
     \<lparr>departuresByMinute = buckets started_at one_trip,
      arrivalsByMinute = buckets ended_at one_trip,
      store = [busy_station], stationsData = [0],
      radiusScale = \<lparr>sc_domain = (Some 0, Some 2), sc_range = (0, 25)\<rparr>,
      timeFilter = - 1, shown = [0]\<rparr>
   = \<lparr>departuresByMinute = buckets started_at one_trip,
      arrivalsByMinute = buckets ended_at one_trip,
      store = [zero_station], stationsData = [0],
      radiusScale = \<lparr>sc_domain = (Some 0, Some 2), sc_range = (3, 50)\<rparr>,
      timeFilter = 600, shown = [0]\<rparr>"
proof -
  have c: "computeStationTraffic (buckets started_at one_trip) (buckets ended_at one_trip) [0] 600
             [busy_station] = ([zero_station], [0])"
    by (simp add: compute_bucketed one_trip_def minutes_trip_at in_window_Some
        stations_trip_at station_json_def busy_station_def zero_station_def)
  show ?thesis
    by (simp add: updateTimeDisplay_def updateScatterPlot_def Let_def c)
qed

lemma domain_upper_update: "domain_upper (updateTimeDisplay v st) = domain_upper st"
  by (simp add: domain_upper_def updateTimeDisplay_def updateScatterPlot_def Let_def)

lemma domain_upper_fold: "domain_upper (fold updateTimeDisplay inputs st) = domain_upper st"
  by (induction inputs arbitrary: st) (simp_all add: domain_upper_update)

lemma domain_upper_update_scan:
  "domain_upper_scan (updateTimeDisplay_scan v st) = domain_upper_scan st"
  by (simp add: domain_upper_scan_def updateTimeDisplay_scan_def updateScatterPlot_scan_def Let_def)

lemma domain_upper_fold_scan:
  "domain_upper_scan (fold updateTimeDisplay_scan inputs st) = domain_upper_scan st"
  by (induction inputs arbitrary: st) (simp_all add: domain_upper_update_scan)

lemma scale_apply_zero:
  assumes "sc_domain sc = (Some 0, Some (real u))"
  shows "scale_apply sc (Some 0)
       = Some (if u = 0 then (fst (sc_range sc) + snd (sc_range sc)) / 2 else fst (sc_range sc))"
proof (cases "u = 0")
  case True
  with assms show ?thesis by (simp add: scale_apply_degenerate)
next
  case False
  then have "sqrt (real u) > 0" by simp
  with False assms show ?thesis
    by (simp add: scale_apply_def bimap_def normalize_def interpolateNumber_def transformSqrt_def
        Let_def)
qed

lemma d3_max_fold_Some:
  "\<exists>m. fold (\<lambda>value mx. case value of None \<Rightarrow> mx
             | Some v \<Rightarrow> (case mx of None \<Rightarrow> Some v | Some m \<Rightarrow> if m < v then Some v else mx))
          vs (Some a) = Some (m::nat)"
  by (induction vs arbitrary: a) (auto split: option.splits)

lemma d3_max_defined:
  assumes "vs \<noteq> []" and "list_all (\<lambda>v. v \<noteq> None) vs"
  shows "\<exists>m. d3_max vs = Some m"
proof (cases vs)
  case Nil
  with assms show ?thesis by simp
next
  case (Cons v rest)
  with assms(2) obtain a where "v = Some a" by auto
  with Cons show ?thesis using d3_max_fold_Some [of rest a] by (simp add: d3_max_def)
qed

lemma scale_domain_update:
  "sc_domain (radiusScale (updateTimeDisplay v st)) = sc_domain (radiusScale st)"
  by (simp add: updateTimeDisplay_def updateScatterPlot_def Let_def)

lemma scale_domain_fold:
  "sc_domain (radiusScale (fold updateTimeDisplay inputs st)) = sc_domain (radiusScale st)"
  by (induction inputs arbitrary: st) (simp_all add: scale_domain_update)

lemma stationsData_fold:
  "stationsData (fold updateTimeDisplay inputs st) = stationsData st"
  by (induction inputs arbitrary: st)
     (simp_all add: updateTimeDisplay_def updateScatterPlot_def Let_def)

lemma shown_fold:
  assumes "shown st = stationsData st"
  shows "shown (fold updateTimeDisplay inputs st) = stationsData st"
  using assms
proof (induction inputs arbitrary: st)
  case Nil
  then show ?case by simp
next
  case (Cons v inputs)
  have "shown (updateTimeDisplay v st) = stationsData (updateTimeDisplay v st)"
    by (simp add: updateTimeDisplay_def updateScatterPlot_def Let_def computeStationTraffic_def)
  from Cons.IH [OF this] show ?case
    by (simp add: updateTimeDisplay_def updateScatterPlot_def Let_def)
qed

lemma on_load_domain:
  assumes "on_load h stations_json trips = Inr st0" and "wf_refs h stations_json"
  shows "sc_domain (radiusScale st0) = (Some 0, current_max st0)"
    and "shown st0 = stations_json" and "stationsData st0 = stations_json"
    and "stations_json \<noteq> [] \<Longrightarrow> \<exists>u. current_max st0 = Some (real u)"
proof -
  from assms(1) obtain tabs where b: "bucket_trips trips = Inr tabs"
    by (auto simp: on_load_def split: sum.splits)
  let ?res = "computeStationTraffic (fst tabs) (snd tabs) stations_json (- 1) h"
  have st0: "st0 = \<lparr>departuresByMinute = fst tabs, arrivalsByMinute = snd tabs,
       store = fst ?res, stationsData = stations_json,
       radiusScale = scaleSqrt \<lparr>sc_range := (0, 25),
          sc_domain := (Some 0, map_option real (d3_max (map totalTraffic (deref (fst ?res) (snd ?res)))))\<rparr>,
       timeFilter = - 1, shown = snd ?res\<rparr>"
    using assms(1) by (simp add: on_load_def b Let_def)
  have sn: "snd ?res = stations_json" by (simp add: computeStationTraffic_def Let_def)
  show "sc_domain (radiusScale st0) = (Some 0, current_max st0)"
    by (simp add: st0 current_max_def shown_stations_def)
  show "shown st0 = stations_json" by (simp add: st0 sn)
  show "stationsData st0 = stations_json" by (simp add: st0)
  show "\<exists>u. current_max st0 = Some (real u)" if ne: "stations_json \<noteq> []"
  proof -
    have agg: "list_all2 (aggregated (filterByMinute (fst tabs) (- 1)) (filterByMinute (snd tabs) (- 1)))
             (deref h stations_json) (deref (fst ?res) (snd ?res))"
      using assms(2) by (rule compute_aggregated)
    have "list_all (\<lambda>v. v \<noteq> None) (map totalTraffic (deref (fst ?res) (snd ?res)))"
      using agg by (auto simp: list_all_iff list_all2_conv_all_nth in_set_conv_nth aggregated_def Let_def)
    moreover have "map totalTraffic (deref (fst ?res) (snd ?res)) \<noteq> []"
      using ne by (simp add: sn deref_def)
    ultimately obtain m where "d3_max (map totalTraffic (deref (fst ?res) (snd ?res))) = Some m"
      using d3_max_defined by blast
    then show ?thesis by (simp add: st0 current_max_def shown_stations_def)
  qed
qed

section \<open>The flow level\<close>

text \<open>
  Claim C8. Every station an aggregation returns, of either variant, has its departures
  and total traffic defined; the ratio handed to the flow scale is the finite number
  \<open>departures / totalTraffic\<close>, or 0 when the total is 0 (the division is then not
  evaluated, so neither NaN nor Infinity arises); and the flow level is its quantization
  over \<open>[0, 1]\<close>, one of 0, 0.5 and 1.
\<close>

theorem flow_level_quantized:
  assumes "d = assign_traffic am dm s \<or> d = copy_with_traffic dm am s"
  shows "\<exists>x t. departures d = Some x \<and> totalTraffic d = Some t \<and>
           departure_ratio d = Num (spec_fraction x t) \<and>
           flow_level d = Some (spec_quantize (spec_fraction x t)) \<and>
           flow_level d \<in> {Some 0, Some (1 / 2), Some 1} \<and>
           (t = 0 \<longrightarrow> departure_ratio d = Num 0 \<and> flow_level d = Some 0)"
proof -
  from assms obtain x t where f: "departures d = Some x" "totalTraffic d = Some t"
    by (auto simp: assign_traffic_def copy_with_traffic_def Let_def)
  note r = departure_ratio_defined [OF f]
  have l: "flow_level d = Some (spec_quantize (spec_fraction x t))"
    by (simp add: flow_level_def r stationFlow_Num)
  have "flow_level d \<in> {Some 0, Some (1 / 2), Some 1}"
    using spec_quantize_levels [of "spec_fraction x t"] by (auto simp: l)
  moreover have "t = 0 \<longrightarrow> departure_ratio d = Num 0 \<and> flow_level d = Some 0"
    by (simp add: r l spec_fraction_def spec_quantize_def)
  ultimately show ?thesis using f r l by blast
qed

theorem flow_level_quantized_witness:
  "flow_level (assign_traffic (d3_rollup length end_station_id spec_trips)
                 (d3_rollup length start_station_id spec_trips) (station_json ''A'' 0 0))
     = Some (1 / 2) \<and>
   flow_level (copy_with_traffic Map.empty Map.empty (station_json ''C'' 2 2)) = Some 0 \<and>
   departure_ratio (copy_with_traffic Map.empty Map.empty (station_json ''C'' 2 2)) = Num 0"
proof -
  let ?d = "assign_traffic (d3_rollup length end_station_id spec_trips)
                 (d3_rollup length start_station_id spec_trips) (station_json ''A'' 0 0)"
  let ?c = "copy_with_traffic Map.empty Map.empty (station_json ''C'' 2 2)"
  have dx: "departures ?d = Some 1" and dt: "totalTraffic ?d = Some 2"
    by (simp_all add: assign_traffic_fields spec_trips_def stations_trip_at station_json_def)
  have cx: "departures ?c = Some 0" and ct: "totalTraffic ?c = Some 0"
    by (simp_all add: copy_with_traffic_def get_or_zero_def Let_def)
  from flow_level_quantized [of ?d _ _ _, OF disjI1 [OF refl]]
  have "flow_level ?d = Some (spec_quantize (spec_fraction 1 2))"
    unfolding dx dt by auto
  moreover from flow_level_quantized [of ?c _ _ _, OF disjI2 [OF refl]]
  have "flow_level ?c = Some 0 \<and> departure_ratio ?c = Num 0"
    unfolding cx ct by auto
  ultimately show ?thesis by (simp add: spec_quantize_def spec_fraction_def)
qed

section \<open>The radius scale\<close>

text \<open>
  Claim C9, as amended. In every state of a session of map.js in which every station
  shown has \<open>totalTraffic = 0\<close>, the radius scale returns a finite radius for every
  station and divides by nothing that is zero. The upper bound of its domain is the
  greatest total traffic of the load. When that bound is positive the radius is the
  least value of the range, 0 for \<open>[0, 25]\<close> and 3 for \<open>[3, 50]\<close>; when it is 0, every
  station having had no traffic at load, the radius is the midpoint of the range, 12.5
  for \<open>[0, 25]\<close> and 26.5 for \<open>[3, 50]\<close>.
\<close>

theorem zero_traffic_radius:
  assumes "on_load h stations_json trips = Inr st0" and "wf_refs h stations_json"
    and "st = fold updateTimeDisplay inputs st0"
    and "list_all (\<lambda>d. totalTraffic d = Some 0) (shown_stations st)"
  shows "session h stations_json trips inputs = Inr st \<and>
         domain_upper st = current_max st0 \<and>
         list_all (\<lambda>r. r = Some (if current_max st0 = Some 0 then range_mid st else range_min st))
           (radii st)"
proof -
  note l = on_load_domain [OF assms(1,2)]
  have dom: "sc_domain (radiusScale st) = (Some 0, current_max st0)"
    unfolding assms(3) scale_domain_fold by (rule l(1))
  have len: "length (shown_stations st) = length stations_json"
    unfolding assms(3) by (simp add: shown_stations_def deref_def shown_fold l(2,3))
  have rad: "list_all (\<lambda>r. r = Some (if current_max st0 = Some 0 then range_mid st else range_min st))
           (radii st)"
  proof (cases "stations_json = []")
    case True
    with len show ?thesis by (simp add: radii_def)
  next
    case False
    then obtain u where u: "current_max st0 = Some (real u)" using l(4) by blast
    have "scale_apply (radiusScale st) (Some 0)
        = Some (if current_max st0 = Some 0 then range_mid st else range_min st)"
      using scale_apply_zero [of "radiusScale st" u] dom
      by (simp add: u range_mid_def range_min_def)
    then show ?thesis
      using assms(4) by (simp add: radii_def list_all_iff)
  qed
  show ?thesis
    using assms(1) rad dom by (simp add: session_def assms(3) domain_upper_def)
qed

theorem zero_traffic_radius_witness:
  "map_sum id radii (session a_heap [0] one_trip [600]) = Inr [Some 3] \<and>
   map_sum id radii (session a_heap [0] [] [600]) = Inr [Some (53 / 2)]"
proof -
  have wf: "wf_refs a_heap [0]" by (simp add: wf_refs_def a_heap_def)
  let ?s0 = "\<lparr>departuresByMinute = buckets started_at one_trip,
          arrivalsByMinute = buckets ended_at one_trip,
          store = [busy_station], stationsData = [0],
          radiusScale = \<lparr>sc_domain = (Some 0, Some 2), sc_range = (0, 25)\<rparr>,
          timeFilter = - 1, shown = [0]\<rparr>"
  let ?s1 = "\<lparr>departuresByMinute = buckets started_at one_trip,
      arrivalsByMinute = buckets ended_at one_trip,
      store = [zero_station], stationsData = [0],
      radiusScale = \<lparr>sc_domain = (Some 0, Some 2), sc_range = (3, 50)\<rparr>,
      timeFilter = 600, shown = [0]\<rparr>"
  have f1: "?s1 = fold updateTimeDisplay [600] ?s0" by (simp add: update_600_one_trip)
  have z1: "list_all (\<lambda>d. totalTraffic d = Some 0) (shown_stations ?s1)"
    by (simp add: shown_stations_def deref_def zero_station_def)
  have m1: "current_max ?s0 = Some 2"
    by (simp add: current_max_def shown_stations_def deref_def d3_max_single busy_station_def)
  have a: "map_sum id radii (session a_heap [0] one_trip [600]) = Inr [Some 3]"
    using zero_traffic_radius [OF on_load_one_trip wf f1 z1]
    by (simp add: m1 range_min_def radii_def shown_stations_def deref_def)
  let ?t0 = "\<lparr>departuresByMinute = empty_table, arrivalsByMinute = empty_table,
          store = [zero_station], stationsData = [0],
          radiusScale = \<lparr>sc_domain = (Some 0, Some 0), sc_range = (0, 25)\<rparr>,
          timeFilter = - 1, shown = [0]\<rparr>"
  let ?t1 = "\<lparr>departuresByMinute = empty_table, arrivalsByMinute = empty_table,
          store = [zero_station], stationsData = [0],
          radiusScale = \<lparr>sc_domain = (Some 0, Some 0), sc_range = (3, 50)\<rparr>,
          timeFilter = 600, shown = [0]\<rparr>"
  have c: "computeStationTraffic empty_table empty_table [0] 600 [zero_station] = ([zero_station], [0])"
  proof -
    have "empty_table = buckets started_at []" "empty_table = buckets ended_at []"
      by (simp_all add: empty_table_def buckets_def map_replicate_const)
    then have "computeStationTraffic empty_table empty_table [0] 600 [zero_station]
        = computeStationTraffic (buckets started_at []) (buckets ended_at []) [0] 600 [zero_station]"
      by simp
    also have "\<dots> = ([zero_station], [0])"
      by (simp add: compute_bucketed zero_station_def)
    finally show ?thesis .
  qed
  have f2: "?t1 = fold updateTimeDisplay [600] ?t0"
    by (simp add: updateTimeDisplay_def updateScatterPlot_def Let_def c)
  have z2: "list_all (\<lambda>d. totalTraffic d = Some 0) (shown_stations ?t1)"
    by (simp add: shown_stations_def deref_def zero_station_def)
  have m2: "current_max ?t0 = Some 0"
    by (simp add: current_max_def shown_stations_def deref_def d3_max_single zero_station_def)
  have b: "map_sum id radii (session a_heap [0] [] [600]) = Inr [Some (53 / 2)]"
    using zero_traffic_radius [OF on_load_no_trips wf f2 z2]
    by (simp add: m2 range_mid_def radii_def shown_stations_def deref_def)
  from a b show ?thesis by (rule conjI)
qed

text \<open>
  The claim's range minimum fails: loading one station and no trip draws the circle with
  radius 12.5, and the least radius of the range is 0.
\<close>

theorem midpoint_counterexample:
  "map_sum id radii (on_load a_heap [0] []) = Inr [Some (25 / 2)] \<and>
   map_sum id range_min (on_load a_heap [0] []) = Inr 0 \<and>
   map_sum id radii_at_range_min (on_load a_heap [0] []) = Inr False"
proof -
  have r: "scale_apply \<lparr>sc_domain = (Some 0, Some 0), sc_range = (0, 25)\<rparr> (Some 0) = Some (25 / 2)"
    by (simp add: scale_apply_degenerate)
  have t: "totalTraffic zero_station = Some 0" by (simp add: zero_station_def)
  show ?thesis
    by (simp add: on_load_no_trips radii_at_range_min_def radii_def shown_stations_def deref_def
        range_min_def r t)
qed

text \<open>
  Claim C5, as amended. In both variants the domain of the radius scale is set once, at
  load, to the greatest total traffic of the unfiltered aggregation; a filter change
  leaves the domain as it is and sets only the range, \<open>[0, 25]\<close> for the sentinel and
  \<open>[3, 50]\<close> for a minute.
\<close>

theorem domain_fixed_at_load:
  assumes "on_load h stations_json trips = Inr st0"
  shows "session h stations_json trips inputs = Inr (fold updateTimeDisplay inputs st0) \<and>
         domain_upper (fold updateTimeDisplay inputs st0) = current_max st0 \<and>
         domain_upper_scan (session_scan h stations_json trips inputs)
           = current_max_scan (on_load_scan h stations_json trips) \<and>
         sc_range (radiusScale (updateTimeDisplay v st)) = (if v = - 1 then (0, 25) else (3, 50)) \<and>
         sc_range (radiusScale_scan (updateTimeDisplay_scan v st'))
           = (if v = - 1 then (0, 25) else (3, 50))"
proof -
  have "domain_upper st0 = current_max st0"
    using assms
    by (auto simp: on_load_def Let_def domain_upper_def current_max_def shown_stations_def
        split: sum.splits)
  moreover have "domain_upper_scan (on_load_scan h stations_json trips)
      = current_max_scan (on_load_scan h stations_json trips)"
    by (simp add: on_load_scan_def Let_def domain_upper_scan_def current_max_scan_def)
  ultimately show ?thesis
    using assms
    by (simp add: session_def session_scan_def domain_upper_fold domain_upper_fold_scan
        updateTimeDisplay_def updateScatterPlot_def updateTimeDisplay_scan_def
        updateScatterPlot_scan_def Let_def)
qed

theorem domain_fixed_at_load_witness:
  "map_sum id domain_upper (session a_heap [0] one_trip [600]) = Inr (Some 2) \<and>
   domain_upper_scan (session_scan a_heap [0] one_trip [600]) = Some 2"
proof -
  note th = domain_fixed_at_load [OF on_load_one_trip, of "[600]"]
  have m: "current_max \<lparr>departuresByMinute = buckets started_at one_trip,
          arrivalsByMinute = buckets ended_at one_trip,
          store = [busy_station], stationsData = [0],
          radiusScale = \<lparr>sc_domain = (Some 0, Some 2), sc_range = (0, 25)\<rparr>,
          timeFilter = - 1, shown = [0]\<rparr> = Some 2"
    by (simp add: current_max_def shown_stations_def deref_def d3_max_single busy_station_def)
  have s: "current_max_scan (on_load_scan a_heap [0] one_trip) = Some 2"
    by (simp add: current_max_scan_def on_load_scan_def Let_def computeStationTraffic_scan_def
        copy_with_traffic_fields one_trip_def a_heap_def filterTripsByTime_def stations_trip_at
        station_json_def deref_def d3_max_single)
  from th show ?thesis unfolding m s by simp
qed

text \<open>
  The claim as stated fails: after loading one trip from A to A and moving the slider to
  minute 600 the domain still ends at 2, and the greatest total traffic of the filtered
  stations is 0.
\<close>

theorem stale_domain_counterexample:
  "map_sum id domain_upper (session a_heap [0] one_trip [600]) = Inr (Some 2) \<and>
   map_sum id current_max (session a_heap [0] one_trip [600]) = Inr (Some 0)"
  by (simp add: session_def on_load_one_trip update_600_one_trip domain_upper_def current_max_def
      shown_stations_def deref_def d3_max_single zero_station_def)

end
